(* ===== verification/Prelude.thy ===== *)
theory Prelude
  imports Main "HOL-Library.Word" "HOL-Library.Signed_Division" "HOL-Library.Char_ord"
    "HOL-Library.List_Lexorder"
begin

text \<open>
  Shared vocabulary of the development: the faults a C++ execution can end in, 64-bit
  integer arithmetic with its wrap-around, bounded copies between byte buffers,
  little-endian integers and decimal numerals. A byte is a \<^typ>\<open>char\<close> and a buffer, a
  \<open>std::string\<close> or a RocksDB \<open>Slice\<close> is a \<^typ>\<open>string\<close>.
\<close>

named_theorems cint \<open>C integer arithmetic that does not wrap\<close>
named_theorems mem_simps \<open>bounded buffer copies that stay in bounds\<close>

type_synonym slice = string

section \<open>Faults and results\<close>

text \<open>
  A function of the program either returns or ends in a fault: an access outside a
  buffer, an integer division by zero, a failed \<open>assert\<close>, a null pointer, a pointer to
  freed memory, or a call of \<open>S5LOG_FATAL\<close>, which exits the process.
\<close>

datatype fault = OutOfBounds | DivByZero | AssertFailed | NullDeref | UseAfterFree | Fatal

type_synonym 'a result = "fault + 'a"

definition bindR :: "'a result \<Rightarrow> ('a \<Rightarrow> 'b result) \<Rightarrow> 'b result" where
  "bindR m f = (case m of Inl e \<Rightarrow> Inl e | Inr x \<Rightarrow> f x)"

lemma bindR_simps [simp]: "bindR (Inl e) f = Inl e" "bindR (Inr x) f = f x"
  by (simp_all add: bindR_def)

lemma bindR_eq_Inr [simp]: "bindR m f = Inr y \<longleftrightarrow> (\<exists>x. m = Inr x \<and> f x = Inr y)"
  by (cases m) auto

lemma bindR_assoc: "bindR (bindR m f) g = bindR m (\<lambda>x. bindR (f x) g)"
  by (cases m) auto

section \<open>64-bit integers\<close>

text \<open>
  Expressions of type \<open>size_t\<close> or \<open>__le64\<close> wrap modulo \<open>2^64\<close>; a value stored into an
  \<open>int64_t\<close> is read as two's complement. C's signed division truncates towards zero,
  which is the \<open>sdiv\<close> and \<open>smod\<close> of the library.
\<close>

definition u64 :: "int \<Rightarrow> int" where
  "u64 x = x mod 2 ^ 64"

definition s64 :: "int \<Rightarrow> int" where
  "s64 x = (x + 2 ^ 63) mod 2 ^ 64 - 2 ^ 63"

lemma u64_id [cint]: "0 \<le> x \<Longrightarrow> x < 2 ^ 64 \<Longrightarrow> u64 x = x"
  by (simp add: u64_def)

lemma u64_neg: "- (2 ^ 64) \<le> x \<Longrightarrow> x < 0 \<Longrightarrow> u64 x = 2 ^ 64 + x"
proof -
  assume "- (2 ^ 64) \<le> x" "x < 0"
  then have "(x + 2 ^ 64) mod 2 ^ 64 = x + 2 ^ 64" by (intro mod_pos_pos_trivial) auto
  then show ?thesis by (simp add: u64_def)
qed

lemma s64_id [cint]: "- (2 ^ 63) \<le> x \<Longrightarrow> x < 2 ^ 63 \<Longrightarrow> s64 x = x"
  by (simp add: s64_def)

lemma u64_range: "0 \<le> u64 x" "u64 x < 2 ^ 64"
  by (simp_all add: u64_def)

lemma s64_range: "- (2 ^ 63) \<le> s64 x" "s64 x < 2 ^ 63"
  by (simp_all add: s64_def)

lemma sdiv_pos [cint]: "0 \<le> a \<Longrightarrow> 0 < b \<Longrightarrow> a sdiv b = a div (b :: int)"
  by (simp add: signed_divide_int_def sgn_if)

lemma smod_pos [cint]: "0 \<le> a \<Longrightarrow> 0 < b \<Longrightarrow> a smod b = a mod (b :: int)"
  by (simp add: signed_modulo_int_def sgn_if)

text \<open>Subtraction on \<open>size_t\<close> values kept as naturals: \<open>a - b\<close> wraps when \<open>a < b\<close>.\<close>

definition sz_sub :: "nat \<Rightarrow> nat \<Rightarrow> nat" where
  "sz_sub a b = (if b \<le> a then a - b else a + 2 ^ 64 - b)"

lemma sz_sub_le [cint]: "b \<le> a \<Longrightarrow> sz_sub a b = a - b"
  by (simp add: sz_sub_def)

text \<open>The number of \<open>b\<close>-sized blocks that hold \<open>a\<close> bytes, rounding up.\<close>

lemma ceil_div_gt: "0 < (b :: int) \<Longrightarrow> 0 \<le> p \<Longrightarrow> p < a \<Longrightarrow> p div b < (a + b - 1) div b"
proof -
  assume b: "0 < b" and p: "p < a"
  have "p div b + 1 = (p + b) div b" using b by (simp add: div_add_self2)
  also have "\<dots> \<le> (a + b - 1) div b" using b p by (intro zdiv_mono1) auto
  finally show ?thesis by simp
qed

lemma ceil_div_le: "0 < (b :: int) \<Longrightarrow> a \<le> q * b \<Longrightarrow> (a + b - 1) div b \<le> q"
proof -
  assume b: "0 < b" and a: "a \<le> q * b"
  have "(a + b - 1) div b \<le> (q * b + (b - 1)) div b" using a b by (intro zdiv_mono1) auto
  also have "\<dots> = q" using b by simp
  finally show ?thesis .
qed

section \<open>Buffers\<close>

text \<open>
  \<open>load_bytes s off n\<close> reads \<open>n\<close> bytes of \<open>s\<close> from offset \<open>off\<close>; \<open>store_bytes d off s\<close>
  is \<open>memcpy(d + off, s, |s|)\<close>. Both fault when the range leaves the buffer.
  \<open>resize_bytes\<close> is \<open>std::string::resize\<close>, which pads with zero bytes.
\<close>

definition load_bytes :: "slice \<Rightarrow> nat \<Rightarrow> nat \<Rightarrow> slice result" where
  "load_bytes s off n = (if off + n \<le> length s then Inr (take n (drop off s)) else Inl OutOfBounds)"

definition store_bytes :: "slice \<Rightarrow> nat \<Rightarrow> slice \<Rightarrow> slice result" where
  "store_bytes d off s =
     (if off + length s \<le> length d then Inr (take off d @ s @ drop (off + length s) d)
      else Inl OutOfBounds)"

definition zeros :: "nat \<Rightarrow> slice" where
  "zeros n = replicate n (CHR 0x00)"

definition resize_bytes :: "slice \<Rightarrow> nat \<Rightarrow> slice" where
  "resize_bytes s n = take n s @ zeros (n - length s)"

lemma length_zeros [simp]: "length (zeros n) = n"
  by (simp add: zeros_def)

lemma nth_zeros [simp]: "i < n \<Longrightarrow> zeros n ! i = CHR 0x00"
  by (simp add: zeros_def)

lemma take_zeros [simp]: "take k (zeros n) = zeros (min k n)"
  by (simp add: zeros_def)

lemma drop_zeros [simp]: "drop k (zeros n) = zeros (n - k)"
  by (simp add: zeros_def)

lemma zeros_add: "zeros (m + n) = zeros m @ zeros n"
  by (simp add: zeros_def replicate_add)

lemma length_resize_bytes [simp]: "length (resize_bytes s n) = n"
  by (simp add: resize_bytes_def)

lemma resize_bytes_Nil [simp]: "resize_bytes [] n = zeros n"
  by (simp add: resize_bytes_def)

lemma load_bytes_ok [mem_simps]:
  "off + n \<le> length s \<Longrightarrow> load_bytes s off n = Inr (take n (drop off s))"
  by (simp add: load_bytes_def)

lemma store_bytes_ok [mem_simps]:
  "off + length s \<le> length d \<Longrightarrow>
   store_bytes d off s = Inr (take off d @ s @ drop (off + length s) d)"
  by (simp add: store_bytes_def)

lemma store_bytes_length: "store_bytes d off s = Inr d' \<Longrightarrow> length d' = length d"
  by (auto simp: store_bytes_def split: if_splits)

lemma store_bytes_nth:
  assumes "store_bytes d off s = Inr d'" and "i < length d"
  shows "d' ! i = (if off \<le> i \<and> i < off + length s then s ! (i - off) else d ! i)"
  using assms by (auto simp: store_bytes_def nth_append split: if_splits)

lemma zeros_0 [simp]: "zeros 0 = []"
  by (simp add: zeros_def)

lemma store_bytes_exists:
  assumes "off + length s \<le> length d"
  obtains d' where "store_bytes d off s = Inr d'" and "length d' = length d"
    and "\<And>i. i < length d \<Longrightarrow> d' ! i = (if off \<le> i \<and> i < off + length s then s ! (i - off) else d ! i)"
proof -
  from assms obtain d' where "store_bytes d off s = Inr d'" by (simp add: mem_simps)
  then show ?thesis using that store_bytes_length store_bytes_nth by blast
qed

section \<open>Little-endian integers\<close>

primrec le_bytes :: "nat \<Rightarrow> nat \<Rightarrow> slice" where
  "le_bytes 0 v = []"
| "le_bytes (Suc k) v = char_of v # le_bytes k (v div 256)"

primrec le_val :: "slice \<Rightarrow> nat" where
  "le_val [] = 0"
| "le_val (b # bs) = of_char b + 256 * le_val bs"

lemma length_le_bytes [simp]: "length (le_bytes k v) = k"
  by (induction k arbitrary: v) auto

lemma le_val_le_bytes [simp]: "le_val (le_bytes k v) = v mod 256 ^ k"
proof (induction k arbitrary: v)
  case 0
  show ?case by simp
next
  case (Suc k)
  have "v mod 256 ^ Suc k = v mod 256 + 256 * (v div 256 mod 256 ^ k)"
    by (simp add: mod_mult2_eq)
  with Suc show ?case by simp
qed

lemma of_char_less_256 [simp]: "(of_char c :: nat) < 256"
  by (metis char_of_char of_char_of mod_less_divisor zero_less_numeral)

lemma le_bytes_le_val [simp]: "length bs = k \<Longrightarrow> le_bytes k (le_val bs) = bs"
proof (induction bs arbitrary: k)
  case Nil
  then show ?case by simp
next
  case (Cons b bs)
  have "char_of (of_char b + 256 * le_val bs :: nat) = char_of ((of_char b + 256 * le_val bs) mod 256 :: nat)"
    by (metis char_of_char of_char_of)
  then have "char_of (of_char b + 256 * le_val bs :: nat) = b" by simp
  moreover have "(of_char b + 256 * le_val bs) div 256 = (le_val bs :: nat)"
    by (simp add: div_add1_eq)
  ultimately show ?case using Cons by auto
qed

lemma le_val_less: "le_val bs < 256 ^ length bs"
proof (induction bs)
  case (Cons b bs)
  have "of_char b + 256 * le_val bs \<le> 255 + 256 * (256 ^ length bs - 1)"
    using Cons of_char_less_256 [of b] by (intro add_mono mult_left_mono) linarith+
  also have "\<dots> < 256 * 256 ^ length bs" by (simp add: algebra_simps)
  finally show ?case by simp
qed simp

lemma le_bytes_inject:
  "v < 256 ^ k \<Longrightarrow> w < 256 ^ k \<Longrightarrow> le_bytes k v = le_bytes k w \<longleftrightarrow> v = w"
  by (metis le_val_le_bytes mod_less)

text \<open>An integer of \<open>n\<close> bytes that lives in a machine word.\<close>

definition word_bytes :: "'a::len word \<Rightarrow> slice" where
  "word_bytes w = le_bytes (LENGTH('a) div 8) (unat w)"

definition bytes_word :: "slice \<Rightarrow> 'a::len word" where
  "bytes_word s = of_nat (le_val s)"

lemma length_word_bytes [simp]: "length (word_bytes (w :: 'a::len word)) = LENGTH('a) div 8"
  by (simp add: word_bytes_def)

lemma bytes_word_bytes [simp]:
  fixes w :: "'a::len word"
  assumes "8 dvd LENGTH('a)"
  shows "bytes_word (word_bytes w) = w"
proof -
  have "(256 :: nat) = 2 ^ 8" by simp
  then have "(256 :: nat) ^ (LENGTH('a) div 8) = 2 ^ (8 * (LENGTH('a) div 8))"
    by (simp only: power_mult)
  with assms have "(256 :: nat) ^ (LENGTH('a) div 8) = 2 ^ LENGTH('a)" by simp
  then show ?thesis
    by (simp add: word_bytes_def bytes_word_def unsigned_less)
qed

section \<open>Encodings\<close>

text \<open>
  The contract of an encoding of values as bytes: what was encoded decodes to itself, so
  distinct values have distinct encodings. Records, integers and keys of the program are
  instances; a fixed width lets encodings be concatenated.
\<close>

locale codec =
  fixes enc :: "'a \<Rightarrow> slice"
    and dec :: "slice \<Rightarrow> 'a"
    and valid :: "'a \<Rightarrow> bool"
  assumes dec_enc: "valid x \<Longrightarrow> dec (enc x) = x"
begin

lemma enc_eq_iff: "valid x \<Longrightarrow> valid y \<Longrightarrow> enc x = enc y \<longleftrightarrow> x = y"
  by (metis dec_enc)

end

locale fixed_codec = codec +
  fixes width :: nat
  assumes enc_width: "length (enc x) = width"
begin

lemma enc_append_eq:
  "valid x \<Longrightarrow> valid y \<Longrightarrow> enc x @ s = enc y @ t \<longleftrightarrow> x = y \<and> s = t"
  by (simp add: enc_width enc_eq_iff)

lemma dec_take: "valid x \<Longrightarrow> dec (take width (enc x @ s)) = x"
  by (simp add: enc_width dec_enc)

end

interpretation le64: fixed_codec "word_bytes :: 64 word \<Rightarrow> slice" bytes_word "\<lambda>_. True" 8
  by unfold_locales simp_all

interpretation le32: fixed_codec "word_bytes :: 32 word \<Rightarrow> slice" bytes_word "\<lambda>_. True" 4
  by unfold_locales simp_all

interpretation le16: fixed_codec "word_bytes :: 16 word \<Rightarrow> slice" bytes_word "\<lambda>_. True" 2
  by unfold_locales simp_all

end
