(* ===== verification/Compaction.thy ===== *)
theory Compaction
  imports Prelude
begin

text \<open>
  What RocksDB documents of a key that receives merges, as an interface: the store keeps a
  base value and the operands merged since, and may at any time fold a prefix of the
  operands into the base with the operator's full merge, or two neighbouring operands into
  one with its partial merge. The locale states what a merge operator must promise for this
  freedom to be unobservable; its lemmas are what the users of the store rely on.
\<close>

section \<open>Entries of a store with merge operands\<close>

datatype entry = Entry (base: "slice option") (operands: "slice list")

definition entry_put :: "slice \<Rightarrow> entry" where
  "entry_put v = Entry (Some v) []"

definition entry_delete :: entry where
  "entry_delete = Entry None []"

definition entry_merge :: "slice \<Rightarrow> entry \<Rightarrow> entry" where
  "entry_merge v e = Entry (base e) (operands e @ [v])"

type_synonym full_merge = "slice option \<Rightarrow> slice list \<Rightarrow> slice result"
type_synonym partial_merge = "slice \<Rightarrow> slice \<Rightarrow> slice result"

text \<open>A lookup: the base itself when nothing is pending, a full merge otherwise.\<close>

definition entry_get :: "full_merge \<Rightarrow> entry \<Rightarrow> slice option result" where
  "entry_get full e =
     (if operands e = [] then Inr (base e)
      else bindR (full (base e) (operands e)) (\<lambda>v. Inr (Some v)))"

inductive compact :: "full_merge \<Rightarrow> partial_merge \<Rightarrow> entry \<Rightarrow> entry \<Rightarrow> bool"
  for full :: full_merge and partial :: partial_merge
where
  fold_base: "xs \<noteq> [] \<Longrightarrow> full b xs = Inr v \<Longrightarrow>
    compact full partial (Entry b (xs @ ys)) (Entry (Some v) ys)"
| fold_pair: "partial x y = Inr z \<Longrightarrow>
    compact full partial (Entry b (xs @ x # y # ys)) (Entry b (xs @ z # ys))"

abbreviation compacts :: "full_merge \<Rightarrow> partial_merge \<Rightarrow> entry \<Rightarrow> entry \<Rightarrow> bool" where
  "compacts full partial \<equiv> (compact full partial)\<^sup>*\<^sup>*"

inductive_cases compact_from: "compact full partial e e'"

text \<open>
  An entry is in order when its base and operands are well formed and neighbouring
  operands are compatible; its meaning is the base acted on by the operands in turn.
\<close>

definition entry_ok ::
  "(slice option \<Rightarrow> bool) \<Rightarrow> (slice \<Rightarrow> bool) \<Rightarrow> (slice \<Rightarrow> slice \<Rightarrow> bool) \<Rightarrow> entry \<Rightarrow> bool" where
  "entry_ok base_ok op_ok joins e \<longleftrightarrow>
     base_ok (base e) \<and> (\<forall>x\<in>set (operands e). op_ok x) \<and> successively joins (operands e)"

definition entry_sem :: "(slice option \<Rightarrow> 'c) \<Rightarrow> (slice \<Rightarrow> 'c \<Rightarrow> 'c) \<Rightarrow> entry \<Rightarrow> 'c" where
  "entry_sem base_sem act e = fold act (operands e) (base_sem (base e))"

lemma compact_not_deleted: "\<not> compact full partial entry_delete e"
  by (auto simp: entry_delete_def elim: compact_from)

lemma compacts_deleted [simp]: "compacts full partial entry_delete e \<longleftrightarrow> e = entry_delete"
  by (auto elim: converse_rtranclpE simp: compact_not_deleted)

lemma compact_no_operands: "\<not> compact full partial (Entry b []) e"
  by (auto elim: compact_from)

lemma compacts_no_operands [simp]: "compacts full partial (Entry b []) e \<longleftrightarrow> e = Entry b []"
  by (auto elim: converse_rtranclpE simp: compact_no_operands)

lemma compact_to_deleted: "\<not> compact full partial e entry_delete"
  by (auto simp: entry_delete_def elim: compact_from)

lemma compacts_to_deleted: "compacts full partial e entry_delete \<Longrightarrow> e = entry_delete"
  by (auto elim: rtranclp.cases simp: compact_to_deleted)

section \<open>The contract of a merge operator\<close>

locale merge_operator =
  fixes full :: full_merge
    and partial :: partial_merge
    and base_ok :: "slice option \<Rightarrow> bool"
    and op_ok :: "slice \<Rightarrow> bool"
    and joins :: "slice \<Rightarrow> slice \<Rightarrow> bool"
    and base_sem :: "slice option \<Rightarrow> 'c"
    and act :: "slice \<Rightarrow> 'c \<Rightarrow> 'c"
  assumes full_total: "base_ok b \<Longrightarrow> \<forall>x\<in>set xs. op_ok x \<Longrightarrow> \<exists>v. full b xs = Inr v"
    and full_ok: "base_ok b \<Longrightarrow> \<forall>x\<in>set xs. op_ok x \<Longrightarrow> full b xs = Inr v \<Longrightarrow> base_ok (Some v)"
    and full_sem: "base_ok b \<Longrightarrow> \<forall>x\<in>set xs. op_ok x \<Longrightarrow> full b xs = Inr v \<Longrightarrow>
      base_sem (Some v) = fold act xs (base_sem b)"
    and partial_ok: "op_ok x \<Longrightarrow> op_ok y \<Longrightarrow> partial x y = Inr z \<Longrightarrow> op_ok z"
    and partial_sem: "op_ok x \<Longrightarrow> op_ok y \<Longrightarrow> joins x y \<Longrightarrow> partial x y = Inr z \<Longrightarrow>
      act z s = act y (act x s)"
    and joins_left: "op_ok x \<Longrightarrow> op_ok y \<Longrightarrow> partial x y = Inr z \<Longrightarrow> joins w x \<Longrightarrow> joins w z"
    and joins_right: "op_ok x \<Longrightarrow> op_ok y \<Longrightarrow> partial x y = Inr z \<Longrightarrow> joins y w \<Longrightarrow> joins z w"
begin

abbreviation ok :: "entry \<Rightarrow> bool" where
  "ok \<equiv> entry_ok base_ok op_ok joins"

abbreviation sem :: "entry \<Rightarrow> 'c" where
  "sem \<equiv> entry_sem base_sem act"

lemma compact_step:
  assumes "compact full partial e e'" and "ok e"
  shows "ok e' \<and> sem e' = sem e"
  using assms
proof cases
  case (fold_base xs b v ys)
  then show ?thesis
    using assms(2) full_ok [of b xs v] full_sem [of b xs v]
    by (auto simp: entry_ok_def entry_sem_def successively_append_iff)
next
  case (fold_pair x y z b xs ys)
  with assms(2) have xy: "op_ok x" "op_ok y" "joins x y"
    by (auto simp: entry_ok_def successively_append_iff successively_Cons)
  note z = fold_pair(3)
  have "successively joins (xs @ z # ys)"
    using assms(2) fold_pair(1) joins_left [OF xy(1,2) z] joins_right [OF xy(1,2) z]
    by (auto simp: entry_ok_def successively_append_iff successively_Cons)
  with assms(2) fold_pair xy show ?thesis
    using partial_ok [OF xy(1,2) z] partial_sem [OF xy z]
    by (auto simp: entry_ok_def entry_sem_def)
qed

lemma compacts_keep: "compacts full partial e e' \<Longrightarrow> ok e \<Longrightarrow> ok e' \<and> sem e' = sem e"
  by (induction rule: rtranclp_induct) (auto dest: compact_step)

text \<open>A lookup after any compaction returns, and returns the meaning of the entry.\<close>

lemma get_total:
  assumes "ok e"
  shows "\<exists>r. entry_get full e = Inr r"
  using assms full_total [of "base e" "operands e"]
  by (auto simp: entry_get_def entry_ok_def)

lemma get_sem:
  assumes "ok e" and "entry_get full e = Inr r"
  shows "base_ok r \<and> base_sem r = sem e"
  using assms full_ok [of "base e" "operands e"] full_sem [of "base e" "operands e"]
  by (auto simp: entry_get_def entry_ok_def entry_sem_def split: if_splits)

lemma get_compacted:
  assumes "compacts full partial e e'" and "ok e" and "entry_get full e' = Inr r"
  shows "base_ok r \<and> base_sem r = sem e"
  using get_sem [of e' r] compacts_keep [OF assms(1,2)] assms(3) by simp

lemma get_compacted_total:
  assumes "compacts full partial e e'" and "ok e"
  shows "\<exists>r. entry_get full e' = Inr r"
  using compacts_keep [OF assms] get_total [of e'] by blast

lemma ok_put: "base_ok (Some v) \<Longrightarrow> ok (entry_put v)"
  by (simp add: entry_ok_def entry_put_def)

lemma sem_put: "sem (entry_put v) = base_sem (Some v)"
  by (simp add: entry_sem_def entry_put_def)

lemma ok_merge:
  "ok e \<Longrightarrow> op_ok v \<Longrightarrow> operands e = [] \<or> joins (last (operands e)) v \<Longrightarrow> ok (entry_merge v e)"
  by (auto simp: entry_ok_def entry_merge_def successively_append_iff)

lemma sem_merge: "sem (entry_merge v e) = act v (sem e)"
  by (simp add: entry_sem_def entry_merge_def)

lemma sem_delete: "sem entry_delete = base_sem None"
  by (simp add: entry_sem_def entry_delete_def)

end

end
