(* ===== verification/DataMerge.thy ===== *)
theory DataMerge
  imports Compaction
begin

text \<open>
  The extent format and the merge operator of \<open>src/src/vn_data_merge.cpp\<close>. File data
  lives in extents; a write that does not fill a whole extent is stored as a RocksDB merge
  operand, and RocksDB calls \<open>FullMergeV2\<close> and \<open>PartialMerge\<close> to combine operands, at a
  time of its own choosing. The theory models both calls byte for byte, gives their effect
  on the content of an extent, and shows when RocksDB's freedom to combine operands early
  cannot be observed.
\<close>

section \<open>Extent values\<close>

definition VIVEFS_EXTENT_SIZE :: nat where
  "VIVEFS_EXTENT_SIZE = push_bit 10 64"

definition PFS_EXTENT_HEAD_SIZE :: nat where
  "PFS_EXTENT_HEAD_SIZE = 16"

definition PFS_FULL_EXTENT_BMP :: "16 word" where
  "PFS_FULL_EXTENT_BMP = 0xffff"

text \<open>The union of \<open>data_bmp\<close> and \<open>merge_off\<close> is the one field \<open>merge_off\<close>.\<close>

record vn_extent_head =
  flags :: "8 word"
  pad0 :: "8 word"
  merge_off :: "16 word"
  pad1 :: slice

definition head_bytes :: "vn_extent_head \<Rightarrow> slice" where
  "head_bytes h = word_bytes (flags h) @ word_bytes (pad0 h) @ word_bytes (merge_off h) @ pad1 h"

definition zero_head :: vn_extent_head where
  "zero_head = \<lparr>flags = 0, pad0 = 0, merge_off = 0, pad1 = zeros 12\<rparr>"

text \<open>Reading and writing \<open>((vn_extent_head* )s)->merge_off\<close>, two bytes at offset 2.\<close>

definition head_merge_off :: "slice \<Rightarrow> (16 word) result" where
  "head_merge_off s = bindR (load_bytes s 2 2) (\<lambda>b. Inr (bytes_word b))"

definition set_merge_off :: "slice \<Rightarrow> 16 word \<Rightarrow> slice result" where
  "set_merge_off s w = store_bytes s 2 (word_bytes w)"

lemma extent_size: "VIVEFS_EXTENT_SIZE = 65536"
  by (simp add: VIVEFS_EXTENT_SIZE_def push_bit_eq_mult)

lemma extent_size_pos [simp]: "0 < VIVEFS_EXTENT_SIZE"
  by (simp add: extent_size)

section \<open>The merge operator\<close>

text \<open>
  \<open>_merge(key, existing_value, value, new_value, logger)\<close>: the key and the logger are not
  read. \<open>new_value\<close> is the string RocksDB hands in to be filled.
\<close>

definition vn_merge :: "slice option \<Rightarrow> slice \<Rightarrow> slice \<Rightarrow> slice result" where
  "vn_merge existing_value value new_value =
    (case existing_value of
       None \<Rightarrow> store_bytes (resize_bytes new_value (length value)) 0 value
     | Some ev \<Rightarrow>
         bindR (head_merge_off ev) (\<lambda>left_off.
         bindR (head_merge_off value) (\<lambda>right_off.
         if \<not> (left_off \<noteq> PFS_FULL_EXTENT_BMP \<and> right_off \<noteq> PFS_FULL_EXTENT_BMP)
         then Inl AssertFailed
         else
           let ext_begin = unat (min left_off right_off);
               ext_end = max (sz_sub (unat left_off + length ev) PFS_EXTENT_HEAD_SIZE)
                             (sz_sub (unat right_off + length value) PFS_EXTENT_HEAD_SIZE);
               nv = resize_bytes new_value (sz_sub ext_end ext_begin + PFS_EXTENT_HEAD_SIZE)
           in
           bindR (load_bytes ev PFS_EXTENT_HEAD_SIZE (sz_sub (length ev) PFS_EXTENT_HEAD_SIZE)) (\<lambda>left_data.
           bindR (store_bytes nv (PFS_EXTENT_HEAD_SIZE + (unat left_off - ext_begin)) left_data) (\<lambda>nv.
           bindR (load_bytes value PFS_EXTENT_HEAD_SIZE (sz_sub (length value) PFS_EXTENT_HEAD_SIZE)) (\<lambda>right_data.
           bindR (store_bytes nv (PFS_EXTENT_HEAD_SIZE + (unat right_off - ext_begin)) right_data) (\<lambda>nv.
           set_merge_off nv (of_nat ext_begin))))))))"

definition PartialMerge :: "slice \<Rightarrow> slice \<Rightarrow> slice \<Rightarrow> slice result" where
  "PartialMerge left_operand right_operand new_value =
     vn_merge (Some left_operand) right_operand new_value"

text \<open>
  \<open>Merge\<close>, the associative operator that \<open>USE_ASSOCIATE_MERGE\<close> selects in place of the
  two: the same combination without the assertion.
\<close>

definition associative_Merge :: "slice option \<Rightarrow> slice \<Rightarrow> slice \<Rightarrow> slice result" where
  "associative_Merge existing_value value new_value =
    (case existing_value of
       None \<Rightarrow> store_bytes (resize_bytes new_value (length value)) 0 value
     | Some ev \<Rightarrow>
         bindR (head_merge_off ev) (\<lambda>left_off.
         bindR (head_merge_off value) (\<lambda>right_off.
         let ext_begin = unat (min left_off right_off);
             ext_end = max (sz_sub (unat left_off + length ev) PFS_EXTENT_HEAD_SIZE)
                           (sz_sub (unat right_off + length value) PFS_EXTENT_HEAD_SIZE);
             nv = resize_bytes new_value (sz_sub ext_end ext_begin + PFS_EXTENT_HEAD_SIZE)
         in
         bindR (load_bytes ev PFS_EXTENT_HEAD_SIZE (sz_sub (length ev) PFS_EXTENT_HEAD_SIZE)) (\<lambda>left_data.
         bindR (store_bytes nv (PFS_EXTENT_HEAD_SIZE + (unat left_off - ext_begin)) left_data) (\<lambda>nv.
         bindR (load_bytes value PFS_EXTENT_HEAD_SIZE (sz_sub (length value) PFS_EXTENT_HEAD_SIZE)) (\<lambda>right_data.
         bindR (store_bytes nv (PFS_EXTENT_HEAD_SIZE + (unat right_off - ext_begin)) right_data) (\<lambda>nv.
         set_merge_off nv (of_nat ext_begin))))))))"

text \<open>The loop body of \<open>FullMergeV2\<close>, the loop, and the whole call.\<close>

definition apply_operand :: "slice \<Rightarrow> slice \<Rightarrow> slice result" where
  "apply_operand nv value =
    (if length value = 0 then Inr nv
     else bindR (head_merge_off value) (\<lambda>off.
          bindR (load_bytes value PFS_EXTENT_HEAD_SIZE (sz_sub (length value) PFS_EXTENT_HEAD_SIZE)) (\<lambda>data.
          store_bytes nv (PFS_EXTENT_HEAD_SIZE + unat off) data)))"

primrec apply_operands :: "slice \<Rightarrow> slice list \<Rightarrow> slice result" where
  "apply_operands nv [] = Inr nv"
| "apply_operands nv (v # vs) = bindR (apply_operand nv v) (\<lambda>nv. apply_operands nv vs)"

definition FullMergeV2 :: "slice option \<Rightarrow> slice list \<Rightarrow> slice \<Rightarrow> slice result" where
  "FullMergeV2 existing_value operand_list new_value =
    (let nv = resize_bytes new_value (VIVEFS_EXTENT_SIZE + PFS_EXTENT_HEAD_SIZE) in
     bindR (case existing_value of
              None \<Rightarrow> Inr nv
            | Some ev \<Rightarrow>
                bindR (load_bytes ev PFS_EXTENT_HEAD_SIZE (sz_sub (length ev) PFS_EXTENT_HEAD_SIZE))
                  (\<lambda>data. store_bytes nv PFS_EXTENT_HEAD_SIZE data))
       (\<lambda>nv. apply_operands nv operand_list))"

text \<open>
  The bitmap helpers at the head of the file. \<open>bmp\<close> is an \<open>int16_t\<close>, so testing a bit
  sign-extends it to \<open>int\<close> first.
\<close>

unbundle bit_operations_syntax

definition set_bit_bmp :: "16 word \<Rightarrow> nat \<Rightarrow> 16 word" where
  "set_bit_bmp bmp index = bmp OR ucast (push_bit index (1 :: 32 word))"

definition is_bit_clean :: "16 word \<Rightarrow> nat \<Rightarrow> bool" where
  "is_bit_clean bmp index \<longleftrightarrow> (scast bmp AND push_bit index (1 :: 32 word)) = 0"

definition is_bit_set :: "16 word \<Rightarrow> nat \<Rightarrow> bool" where
  "is_bit_set bmp index \<longleftrightarrow> (scast bmp AND push_bit index (1 :: 32 word)) \<noteq> 0"

section \<open>What a value means\<close>

text \<open>
  The content of an extent is a function from offsets to bytes. An operand overlays its
  data at its offset; a base value holds the whole extent; no base is all zeros.
\<close>

definition overlay :: "nat \<Rightarrow> slice \<Rightarrow> (nat \<Rightarrow> char) \<Rightarrow> nat \<Rightarrow> char" where
  "overlay off d f = (\<lambda>i. if off \<le> i \<and> i < off + length d then d ! (i - off) else f i)"

definition op_off :: "slice \<Rightarrow> nat" where
  "op_off x = le_val (take 2 (drop 2 x))"

definition op_data :: "slice \<Rightarrow> slice" where
  "op_data x = drop PFS_EXTENT_HEAD_SIZE x"

definition op_end :: "slice \<Rightarrow> nat" where
  "op_end x = op_off x + length (op_data x)"

definition op_act :: "slice \<Rightarrow> (nat \<Rightarrow> char) \<Rightarrow> nat \<Rightarrow> char" where
  "op_act x = overlay (op_off x) (op_data x)"

definition op_wf :: "slice \<Rightarrow> bool" where
  "op_wf x \<longleftrightarrow> PFS_EXTENT_HEAD_SIZE \<le> length x \<and> op_end x \<le> VIVEFS_EXTENT_SIZE"

definition base_wf :: "slice option \<Rightarrow> bool" where
  "base_wf b \<longleftrightarrow>
     (case b of None \<Rightarrow> True | Some v \<Rightarrow> length v = VIVEFS_EXTENT_SIZE + PFS_EXTENT_HEAD_SIZE)"

definition ext_content :: "slice \<Rightarrow> nat \<Rightarrow> char" where
  "ext_content v = (\<lambda>i. if i < VIVEFS_EXTENT_SIZE then v ! (PFS_EXTENT_HEAD_SIZE + i) else CHR 0x00)"

definition base_content :: "slice option \<Rightarrow> nat \<Rightarrow> char" where
  "base_content b = (case b of None \<Rightarrow> (\<lambda>_. CHR 0x00) | Some v \<Rightarrow> ext_content v)"

text \<open>Two operands touch when no byte lies strictly between their ranges.\<close>

definition op_touch :: "slice \<Rightarrow> slice \<Rightarrow> bool" where
  "op_touch x y \<longleftrightarrow>
     op_off x \<le> op_end y \<and> op_off y \<le> op_end x"

lemmas extent_defs = op_off_def op_data_def op_end_def op_wf_def PFS_EXTENT_HEAD_SIZE_def

section \<open>FullMergeV2 overlays the operands in order\<close>

lemma op_off_less: "op_off x < 65536"
proof -
  have "le_val (take 2 (drop 2 x)) < 256 ^ length (take 2 (drop 2 x))" by (rule le_val_less)
  also have "\<dots> \<le> 256 ^ 2" by (intro power_increasing) auto
  finally show ?thesis by (simp add: op_off_def)
qed

lemma head_merge_off_ok [mem_simps]:
  "4 \<le> length x \<Longrightarrow> head_merge_off x = Inr (of_nat (op_off x))"
  by (simp add: head_merge_off_def mem_simps op_off_def bytes_word_def)

lemma unat_op_off [simp]: "unat (of_nat (op_off x) :: 16 word) = op_off x"
  using op_off_less [of x] by (simp add: unat_of_nat)

lemma op_off_full [simp]: "of_nat (op_off x) = PFS_FULL_EXTENT_BMP \<longleftrightarrow> op_off x = 65535"
proof -
  have "(of_nat (op_off x) :: 16 word) = PFS_FULL_EXTENT_BMP \<longleftrightarrow>
      unat (of_nat (op_off x) :: 16 word) = unat PFS_FULL_EXTENT_BMP"
    by (rule word_unat_eq_iff)
  then show ?thesis by (simp add: PFS_FULL_EXTENT_BMP_def)
qed

lemma op_wfD:
  "op_wf x \<Longrightarrow> 16 \<le> length x" "op_wf x \<Longrightarrow> op_off x + (length x - 16) \<le> VIVEFS_EXTENT_SIZE"
  by (auto simp: extent_defs)

lemma overlay_nth_store:
  assumes "store_bytes nv (PFS_EXTENT_HEAD_SIZE + off) d = Inr nv'"
    and "length nv = VIVEFS_EXTENT_SIZE + PFS_EXTENT_HEAD_SIZE"
  shows "ext_content nv' = overlay off d (ext_content nv)"
proof
  fix i
  have "off + length d \<le> VIVEFS_EXTENT_SIZE"
    using assms by (auto simp: store_bytes_def split: if_splits)
  then show "ext_content nv' i = overlay off d (ext_content nv) i"
    using assms(2) store_bytes_nth [OF assms(1), of "PFS_EXTENT_HEAD_SIZE + i"]
    by (auto simp: ext_content_def overlay_def)
qed

lemma apply_operand_sound:
  assumes "op_wf x" and "length nv = VIVEFS_EXTENT_SIZE + PFS_EXTENT_HEAD_SIZE"
  obtains nv' where "apply_operand nv x = Inr nv'"
    and "length nv' = VIVEFS_EXTENT_SIZE + PFS_EXTENT_HEAD_SIZE"
    and "ext_content nv' = op_act x (ext_content nv)"
    and "take PFS_EXTENT_HEAD_SIZE nv' = take PFS_EXTENT_HEAD_SIZE nv"
proof -
  note wf = op_wfD [OF assms(1)]
  let ?s = "store_bytes nv (PFS_EXTENT_HEAD_SIZE + op_off x) (op_data x)"
  have eq: "apply_operand nv x = ?s"
    using wf by (auto simp: apply_operand_def mem_simps cint PFS_EXTENT_HEAD_SIZE_def op_data_def)
  obtain nv' where nv': "?s = Inr nv'"
    by (rule store_bytes_exists [of "PFS_EXTENT_HEAD_SIZE + op_off x" "op_data x" nv])
      (use assms in \<open>auto simp: op_wf_def op_end_def\<close>)
  show ?thesis
  proof (rule that)
    show "apply_operand nv x = Inr nv'" using eq nv' by simp
    show "length nv' = VIVEFS_EXTENT_SIZE + PFS_EXTENT_HEAD_SIZE"
      using store_bytes_length [OF nv'] assms(2) by simp
    show "ext_content nv' = op_act x (ext_content nv)"
      using overlay_nth_store [OF nv' assms(2)] by (simp add: op_act_def)
    show "take PFS_EXTENT_HEAD_SIZE nv' = take PFS_EXTENT_HEAD_SIZE nv"
      using nv' by (auto simp: store_bytes_def split: if_splits)
  qed
qed

lemma apply_operands_sound:
  assumes "\<forall>x\<in>set xs. op_wf x" and "length nv = VIVEFS_EXTENT_SIZE + PFS_EXTENT_HEAD_SIZE"
  shows "\<exists>nv'. apply_operands nv xs = Inr nv' \<and>
    length nv' = VIVEFS_EXTENT_SIZE + PFS_EXTENT_HEAD_SIZE \<and>
    ext_content nv' = fold op_act xs (ext_content nv) \<and>
    take PFS_EXTENT_HEAD_SIZE nv' = take PFS_EXTENT_HEAD_SIZE nv"
  using assms
proof (induction xs arbitrary: nv)
  case Nil
  then show ?case by simp
next
  case (Cons x xs)
  then have "op_wf x" by simp
  from apply_operand_sound [OF this Cons.prems(2)] obtain nv' where
    nv': "apply_operand nv x = Inr nv'" "length nv' = VIVEFS_EXTENT_SIZE + PFS_EXTENT_HEAD_SIZE"
      "ext_content nv' = op_act x (ext_content nv)"
      "take PFS_EXTENT_HEAD_SIZE nv' = take PFS_EXTENT_HEAD_SIZE nv" .
  with Cons.IH [of nv'] Cons.prems(1) show ?case by auto
qed

lemma FullMergeV2_sound:
  assumes "base_wf b" and "\<forall>x\<in>set xs. op_wf x"
  shows "\<exists>v. FullMergeV2 b xs [] = Inr v \<and> length v = VIVEFS_EXTENT_SIZE + PFS_EXTENT_HEAD_SIZE \<and>
    ext_content v = fold op_act xs (base_content b) \<and> take PFS_EXTENT_HEAD_SIZE v = zeros PFS_EXTENT_HEAD_SIZE"
proof -
  let ?z = "zeros (VIVEFS_EXTENT_SIZE + PFS_EXTENT_HEAD_SIZE)"
  obtain nv where nv: "(case b of None \<Rightarrow> Inr ?z
      | Some ev \<Rightarrow> bindR (load_bytes ev PFS_EXTENT_HEAD_SIZE (sz_sub (length ev) PFS_EXTENT_HEAD_SIZE))
          (store_bytes ?z PFS_EXTENT_HEAD_SIZE)) = Inr nv"
    and len: "length nv = VIVEFS_EXTENT_SIZE + PFS_EXTENT_HEAD_SIZE"
    and cont: "ext_content nv = base_content b"
    and hd: "take PFS_EXTENT_HEAD_SIZE nv = zeros PFS_EXTENT_HEAD_SIZE"
  proof (cases b)
    case None
    show ?thesis
      by (rule that [of ?z]) (auto simp: None ext_content_def base_content_def)
  next
    case (Some ev)
    with assms(1) have l: "length ev = VIVEFS_EXTENT_SIZE + PFS_EXTENT_HEAD_SIZE"
      by (simp add: base_wf_def)
    show ?thesis
      by (rule that [of "zeros PFS_EXTENT_HEAD_SIZE @ drop PFS_EXTENT_HEAD_SIZE ev"])
        (use l in \<open>auto simp: Some mem_simps cint ext_content_def base_content_def nth_append\<close>)
  qed
  from apply_operands_sound [OF assms(2) len] show ?thesis
    using nv cont hd by (simp add: FullMergeV2_def)
qed

section \<open>PartialMerge\<close>

lemma PartialMerge_run:
  assumes x: "op_wf x" and y: "op_wf y"
    and nf: "op_off x \<noteq> 65535" "op_off y \<noteq> 65535"
  defines "lo \<equiv> min (op_off x) (op_off y)"
    and "hi \<equiv> max (op_off x + length (op_data x)) (op_off y + length (op_data y))"
  shows "\<exists>z. PartialMerge x y [] = Inr z \<and> length z = hi - lo + 16 \<and> op_off z = lo \<and>
    (\<forall>j < hi - lo. op_data z ! j =
       overlay (op_off y) (op_data y) (overlay (op_off x) (op_data x) (\<lambda>_. CHR 0x00)) (lo + j))"
proof -
  note wf = op_wfD [OF x] op_wfD [OF y]
  let ?lx = "length (op_data x)" and ?ly = "length (op_data y)"
  have len: "length x = ?lx + 16" "length y = ?ly + 16"
    using wf by (simp_all add: op_data_def PFS_EXTENT_HEAD_SIZE_def)
  have bounds: "lo \<le> op_off x" "lo \<le> op_off y" "lo \<le> hi" "op_off x + ?lx \<le> hi" "op_off y + ?ly \<le> hi"
    by (auto simp: lo_def hi_def)
  have lo: "unat (min (of_nat (op_off x)) (of_nat (op_off y)) :: 16 word) = lo"
    using op_off_less [of x] op_off_less [of y]
    by (auto simp: lo_def min_def word_le_nat_alt)
  obtain n1 where n1: "store_bytes (zeros (hi - lo + 16)) (16 + (op_off x - lo)) (op_data x) = Inr n1"
    and len1: "length n1 = hi - lo + 16"
    and nth1: "\<And>i. i < hi - lo + 16 \<Longrightarrow> n1 ! i = (if 16 + (op_off x - lo) \<le> i \<and> i < 16 + (op_off x - lo) + ?lx
        then op_data x ! (i - (16 + (op_off x - lo))) else CHR 0x00)"
    by (rule store_bytes_exists [of "16 + (op_off x - lo)" "op_data x" "zeros (hi - lo + 16)"])
      (use bounds in auto)
  obtain n2 where n2: "store_bytes n1 (16 + (op_off y - lo)) (op_data y) = Inr n2"
    and len2: "length n2 = hi - lo + 16"
    and nth2: "\<And>i. i < hi - lo + 16 \<Longrightarrow> n2 ! i = (if 16 + (op_off y - lo) \<le> i \<and> i < 16 + (op_off y - lo) + ?ly
        then op_data y ! (i - (16 + (op_off y - lo))) else n1 ! i)"
    by (rule store_bytes_exists [of "16 + (op_off y - lo)" "op_data y" n1])
      (use bounds len1 in auto)
  let ?z = "take 2 n2 @ word_bytes (of_nat lo :: 16 word) @ drop 4 n2"
  have sz: "sz_sub (op_off x + length x) 16 = op_off x + ?lx"
    "sz_sub (op_off y + length y) 16 = op_off y + ?ly" "sz_sub hi lo = hi - lo"
    using len bounds by (simp_all add: cint)
  have ld: "load_bytes x 16 (sz_sub (length x) 16) = Inr (op_data x)"
    "load_bytes y 16 (sz_sub (length y) 16) = Inr (op_data y)"
    using wf by (simp_all add: mem_simps cint op_data_def PFS_EXTENT_HEAD_SIZE_def)
  have hd: "head_merge_off x = Inr (of_nat (op_off x))" "head_merge_off y = Inr (of_nat (op_off y))"
    using wf by (simp_all add: mem_simps)
  have set: "set_merge_off n2 (of_nat lo) = Inr ?z"
    using len2 by (simp add: set_merge_off_def mem_simps)
  have run: "PartialMerge x y [] = Inr ?z"
    by (simp only: PartialMerge_def vn_merge_def option.case hd bindR_simps op_off_full nf lo Let_def
        PFS_EXTENT_HEAD_SIZE_def unat_op_off sz ld resize_bytes_Nil n1 n2 set simp_thms if_False
        flip: hi_def)
  have zdata: "op_data ?z = drop 16 n2"
    using len2 by (simp add: op_data_def PFS_EXTENT_HEAD_SIZE_def drop_append)
  have zlen: "length ?z = hi - lo + 16" using len2 by simp
  have zoff: "op_off ?z = lo"
  proof -
    have "lo < 65536" using op_off_less [of x] by (simp add: lo_def)
    moreover have "take 2 (drop 2 ?z) = word_bytes (of_nat lo :: 16 word)"
      using len2 by simp
    ultimately show ?thesis
      by (simp add: op_off_def word_bytes_def unat_of_nat)
  qed
  have shift: "(16 + (a - lo) \<le> 16 + j \<longleftrightarrow> a \<le> lo + j)" "(16 + j < 16 + (a - lo) + l \<longleftrightarrow> lo + j < a + l)"
    "16 + j - (16 + (a - lo)) = lo + j - a" if "lo \<le> a" for a j l
    using that by auto
  have znth: "op_data ?z ! j =
      overlay (op_off y) (op_data y) (overlay (op_off x) (op_data x) (\<lambda>_. CHR 0x00)) (lo + j)"
    if j: "j < hi - lo" for j
  proof -
    have "op_data ?z ! j = n2 ! (16 + j)" using len2 by (simp add: zdata)
    also have "\<dots> = overlay (op_off y) (op_data y) (overlay (op_off x) (op_data x) (\<lambda>_. CHR 0x00)) (lo + j)"
      using j nth1 [of "16 + j"] nth2 [of "16 + j"] shift [OF bounds(1)] shift [OF bounds(2)]
      by (simp add: overlay_def)
    finally show ?thesis .
  qed
  from run zlen zoff znth show ?thesis by blast
qed

lemma op_act_apply:
  "op_act x f i = (if op_off x \<le> i \<and> i < op_end x then op_data x ! (i - op_off x) else f i)"
  by (simp add: op_act_def overlay_def op_end_def)

lemma op_off_le_end [simp]: "op_off x \<le> op_end x"
  by (simp add: op_end_def)

lemma PartialMerge_sound:
  assumes x: "op_wf x" and y: "op_wf y" and z: "PartialMerge x y [] = Inr z"
  shows "op_wf z" and "op_off z = min (op_off x) (op_off y)" and "op_end z = max (op_end x) (op_end y)"
    and "op_act z f i = (if op_off z \<le> i \<and> i < op_end z
      then op_act y (op_act x (\<lambda>_. CHR 0x00)) i else f i)"
proof -
  have nf: "op_off x \<noteq> 65535" "op_off y \<noteq> 65535"
    using z op_wfD [OF x] op_wfD [OF y]
    by (auto simp: PartialMerge_def vn_merge_def mem_simps simp del: bindR_eq_Inr)
  define lo hi where lo: "lo = min (op_off x) (op_off y)" and hi: "hi = max (op_end x) (op_end y)"
  from PartialMerge_run [OF x y nf] z have run: "length z = hi - lo + 16" "op_off z = lo"
    and nth: "\<And>j. j < hi - lo \<Longrightarrow> op_data z ! j = op_act y (op_act x (\<lambda>_. CHR 0x00)) (lo + j)"
    by (auto simp: op_act_def lo hi op_end_def)
  have le: "lo \<le> hi" by (auto simp: lo hi op_end_def)
  show "op_off z = min (op_off x) (op_off y)" using run lo by simp
  have len: "length (op_data z) = hi - lo"
    using run by (simp add: op_data_def PFS_EXTENT_HEAD_SIZE_def)
  then have "op_end z = hi" using run le by (simp add: op_end_def)
  then show "op_end z = max (op_end x) (op_end y)" using hi by simp
  then show "op_wf z" using run(1) x y by (simp add: op_wf_def PFS_EXTENT_HEAD_SIZE_def)
  show "op_act z f i = (if op_off z \<le> i \<and> i < op_end z
      then op_act y (op_act x (\<lambda>_. CHR 0x00)) i else f i)"
  proof (cases "lo \<le> i \<and> i < hi")
    case True
    then have "i - lo < hi - lo" and "lo + (i - lo) = i" by auto
    with nth [of "i - lo"] True show ?thesis
      using run(2) \<open>op_end z = hi\<close> by (simp add: op_act_apply [of z])
  next
    case False
    then show ?thesis using run(2) \<open>op_end z = hi\<close> by (auto simp: op_act_apply [of z])
  qed
qed

lemma PartialMerge_total:
  assumes "op_wf x" "op_wf y" "op_off x \<noteq> 65535" "op_off y \<noteq> 65535"
  shows "\<exists>z. PartialMerge x y [] = Inr z"
  using PartialMerge_run [OF assms] by blast

lemma PartialMerge_touch:
  assumes x: "op_wf x" and y: "op_wf y" and z: "PartialMerge x y [] = Inr z" and t: "op_touch x y"
  shows "op_act z f = op_act y (op_act x f)"
proof
  fix i
  note s = PartialMerge_sound [OF x y z]
  show "op_act z f i = op_act y (op_act x f) i"
  proof (cases "op_off z \<le> i \<and> i < op_end z")
    case True
    then have "op_off x \<le> i \<and> i < op_end x \<or> op_off y \<le> i \<and> i < op_end y"
      using s(2,3) t unfolding op_touch_def by linarith
    then show ?thesis
      unfolding s(4) using True by (auto simp: op_act_apply)
  next
    case False
    then have "\<not> (op_off x \<le> i \<and> i < op_end x)" "\<not> (op_off y \<le> i \<and> i < op_end y)"
      using s(2,3) by linarith+
    then show ?thesis
      unfolding s(4) using False by (auto simp: op_act_apply)
  qed
qed

lemma PartialMerge_gap:
  assumes x: "op_wf x" and y: "op_wf y" and z: "PartialMerge x y [] = Inr z" and t: "\<not> op_touch x y"
  shows "\<exists>i. op_act z f i = CHR 0x00 \<and> op_act y (op_act x f) i = f i"
proof -
  note s = PartialMerge_sound [OF x y z]
  define i where "i = min (op_end x) (op_end y)"
  have "op_off z \<le> i" "i < op_end z" and out: "\<not> (op_off x \<le> i \<and> i < op_end x)" "\<not> (op_off y \<le> i \<and> i < op_end y)"
    using s(2,3) t op_off_le_end [of x] op_off_le_end [of y]
    unfolding op_touch_def i_def by linarith+
  then have "op_act z f i = CHR 0x00" "op_act y (op_act x f) i = f i"
    unfolding s(4) by (auto simp: op_act_apply)
  then show ?thesis by blast
qed

text \<open>The associative variant agrees wherever the assertion of \<open>_merge\<close> holds, faults included.\<close>

lemma associative_Merge_eq:
  "vn_merge existing_value value new_value \<noteq> Inl AssertFailed \<Longrightarrow>
   associative_Merge existing_value value new_value = vn_merge existing_value value new_value"
  by (auto simp: vn_merge_def associative_Merge_def Let_def bindR_def split: option.splits sum.splits if_splits)

section \<open>The operator meets its contract\<close>

interpretation vive: merge_operator "\<lambda>b xs. FullMergeV2 b xs []" "\<lambda>x y. PartialMerge x y []"
  base_wf op_wf op_touch base_content op_act
proof unfold_locales
  show "\<exists>v. FullMergeV2 b xs [] = Inr v" if "base_wf b" "\<forall>x\<in>set xs. op_wf x" for b xs
    using FullMergeV2_sound [OF that] by blast
  show "base_wf (Some v)" if "base_wf b" "\<forall>x\<in>set xs. op_wf x" "FullMergeV2 b xs [] = Inr v" for b xs v
    using FullMergeV2_sound [OF that(1,2)] that(3) by (auto simp: base_wf_def)
  show "base_content (Some v) = fold op_act xs (base_content b)"
    if "base_wf b" "\<forall>x\<in>set xs. op_wf x" "FullMergeV2 b xs [] = Inr v" for b xs v
    using FullMergeV2_sound [OF that(1,2)] that(3) by (auto simp: base_content_def)
  show "op_wf z" if "op_wf x" "op_wf y" "PartialMerge x y [] = Inr z" for x y z
    using PartialMerge_sound(1) [OF that] .
  show "op_act z s = op_act y (op_act x s)"
    if "op_wf x" "op_wf y" "op_touch x y" "PartialMerge x y [] = Inr z" for x y z s
    using PartialMerge_touch that by blast
  show "op_touch w z" if "op_wf x" "op_wf y" "PartialMerge x y [] = Inr z" "op_touch w x" for x y z w
    using PartialMerge_sound(2,3) [OF that(1-3)] that(4) by (auto simp: op_touch_def)
  show "op_touch z w" if "op_wf x" "op_wf y" "PartialMerge x y [] = Inr z" "op_touch y w" for x y z w
    using PartialMerge_sound(2,3) [OF that(1-3)] that(4) by (auto simp: op_touch_def)
qed

section \<open>Properties\<close>

text \<open>Two concrete operands: \<open>AB\<close> at offset 1 and \<open>C\<close> at offset 7 of their extent.\<close>

definition sample_op1 :: slice where
  "sample_op1 = head_bytes (zero_head\<lparr>merge_off := 1\<rparr>) @ ''AB''"

definition sample_op2 :: slice where
  "sample_op2 = head_bytes (zero_head\<lparr>merge_off := 7\<rparr>) @ ''C''"

definition sample_op3 :: slice where
  "sample_op3 = head_bytes (zero_head\<lparr>merge_off := 3\<rparr>) @ ''C''"

definition sample_op_last :: slice where
  "sample_op_last = head_bytes (zero_head\<lparr>merge_off := 65535\<rparr>) @ ''Z''"

lemma zero_head_bytes: "head_bytes (zero_head\<lparr>merge_off := w\<rparr>) = CHR 0x00 # CHR 0x00 # word_bytes w @ zeros 12"
  by (simp add: head_bytes_def zero_head_def word_bytes_def char_of_def)

lemma unat_lt2p16: "unat (w :: 16 word) < 65536"
  using unsigned_less [of w, where ?'a = nat] by simp

lemma op_off_head [simp]: "op_off (head_bytes (zero_head\<lparr>merge_off := w\<rparr>) @ d) = unat w"
  using unat_lt2p16 [of w] by (simp add: op_off_def zero_head_bytes word_bytes_def)

lemma op_data_head [simp]: "op_data (head_bytes (zero_head\<lparr>merge_off := w\<rparr>) @ d) = d"
  by (simp add: op_data_def zero_head_bytes PFS_EXTENT_HEAD_SIZE_def)

lemma sample_ops [simp]:
  "op_off sample_op1 = 1" "op_off sample_op2 = 7" "op_off sample_op3 = 3" "op_off sample_op_last = 65535"
  "op_end sample_op1 = 3" "op_end sample_op2 = 8" "op_end sample_op3 = 4" "op_end sample_op_last = 65536"
  "op_data sample_op1 = ''AB''" "op_data sample_op2 = ''C''" "op_data sample_op3 = ''C''"
  by (simp_all add: sample_op1_def sample_op2_def sample_op3_def sample_op_last_def op_end_def)

lemma sample_ops_wf [simp]: "op_wf sample_op1" "op_wf sample_op2" "op_wf sample_op3" "op_wf sample_op_last"
  unfolding op_wf_def
  by (simp_all add: extent_size)
    (simp_all add: sample_op1_def sample_op2_def sample_op3_def sample_op_last_def zero_head_bytes
      PFS_EXTENT_HEAD_SIZE_def)

lemma sample_ops_touch [simp]: "op_touch sample_op1 sample_op3" "\<not> op_touch sample_op1 sample_op2"
  by (simp_all add: op_touch_def)

lemmas sample_acts = op_act_apply [of sample_op1] op_act_apply [of sample_op2] op_act_apply [of sample_op3]

text \<open>
  C13: on a well-formed base value and well-formed operands, \<open>FullMergeV2\<close> never reads or
  writes out of bounds; its result is a full extent with a cleared head whose content is
  the base content overlaid with the operands, oldest first.
\<close>

theorem full_merge_overlays:
  assumes "base_wf b" and "\<forall>x\<in>set xs. op_wf x"
  shows "\<exists>v. FullMergeV2 b xs [] = Inr v \<and> length v = VIVEFS_EXTENT_SIZE + PFS_EXTENT_HEAD_SIZE \<and>
    take PFS_EXTENT_HEAD_SIZE v = zeros PFS_EXTENT_HEAD_SIZE \<and>
    (\<forall>i < VIVEFS_EXTENT_SIZE. v ! (PFS_EXTENT_HEAD_SIZE + i) = fold op_act xs (base_content b) i)"
proof -
  from FullMergeV2_sound [OF assms] obtain v where v: "FullMergeV2 b xs [] = Inr v"
    "length v = VIVEFS_EXTENT_SIZE + PFS_EXTENT_HEAD_SIZE" "ext_content v = fold op_act xs (base_content b)"
    "take PFS_EXTENT_HEAD_SIZE v = zeros PFS_EXTENT_HEAD_SIZE" by blast
  moreover have "v ! (PFS_EXTENT_HEAD_SIZE + i) = ext_content v i" if "i < VIVEFS_EXTENT_SIZE" for i
    using that by (simp add: ext_content_def)
  ultimately show ?thesis by auto
qed

theorem full_merge_overlays_witness:
  "\<exists>v. FullMergeV2 None [sample_op1, sample_op3] [] = Inr v \<and>
     v ! (PFS_EXTENT_HEAD_SIZE + 2) = CHR ''B'' \<and> v ! (PFS_EXTENT_HEAD_SIZE + 3) = CHR ''C'' \<and>
     v ! (PFS_EXTENT_HEAD_SIZE + 4) = CHR 0x00"
proof -
  obtain v where v: "FullMergeV2 None [sample_op1, sample_op3] [] = Inr v"
    and nth: "\<And>i. i < 65536 \<Longrightarrow> v ! (PFS_EXTENT_HEAD_SIZE + i) = fold op_act [sample_op1, sample_op3] (base_content None) i"
    using full_merge_overlays [of None "[sample_op1, sample_op3]"] by (auto simp: base_wf_def extent_size)
  show ?thesis using v nth [of 2] nth [of 3] nth [of 4] by (simp add: sample_acts base_content_def)
qed

text \<open>
  C14: when two operands touch, replacing them by the result of \<open>PartialMerge\<close> changes no
  byte of any extent: the combined operand acts as the two in sequence. The associative
  operator \<open>Merge\<close> combines them to the same operand.
\<close>

theorem partial_merge_equivalent:
  assumes "op_wf x" and "op_wf y" and "op_touch x y" and "op_off x \<noteq> 65535" and "op_off y \<noteq> 65535"
  shows "\<exists>z. PartialMerge x y [] = Inr z \<and> associative_Merge (Some x) y [] = Inr z \<and> op_wf z \<and>
    (\<forall>f. op_act z f = op_act y (op_act x f))"
proof -
  obtain z where z: "PartialMerge x y [] = Inr z"
    using PartialMerge_total [OF assms(1,2,4,5)] by blast
  moreover from this have "associative_Merge (Some x) y [] = Inr z"
    using associative_Merge_eq [of "Some x" y "[]"] by (simp add: PartialMerge_def)
  ultimately show ?thesis using PartialMerge_sound(1) [OF assms(1,2) z] PartialMerge_touch [OF assms(1,2) z assms(3)] by blast
qed

theorem partial_merge_equivalent_witness:
  "\<exists>z. PartialMerge sample_op1 sample_op3 [] = Inr z \<and>
     op_act z (\<lambda>_. CHR ''o'') 2 = CHR ''B'' \<and> op_act z (\<lambda>_. CHR ''o'') 3 = CHR ''C'' \<and> op_act z (\<lambda>_. CHR ''o'') 4 = CHR ''o''"
  using partial_merge_equivalent [of sample_op1 sample_op3]
  by (fastforce simp: sample_acts)

text \<open>
  C28: when two operands do not touch, \<open>PartialMerge\<close> is not equivalent to applying them in
  sequence: some byte between them is replaced by zero, whatever the extent held there.
\<close>

theorem partial_merge_clears_gap:
  assumes "op_wf x" and "op_wf y" and "\<not> op_touch x y" and "PartialMerge x y [] = Inr z"
  shows "\<exists>i. op_act z f i = CHR 0x00 \<and> op_act y (op_act x f) i = f i"
  using PartialMerge_gap [OF assms(1,2,4,3)] .

theorem partial_merge_clears_gap_witness:
  "\<exists>z i. PartialMerge sample_op1 sample_op2 [] = Inr z \<and>
     op_act z (\<lambda>_. CHR ''o'') i = CHR 0x00 \<and> op_act sample_op2 (op_act sample_op1 (\<lambda>_. CHR ''o'')) i = CHR ''o''"
proof -
  obtain z where "PartialMerge sample_op1 sample_op2 [] = Inr z"
    using PartialMerge_total [of sample_op1 sample_op2] by auto
  with partial_merge_clears_gap [OF _ _ _ this, of "\<lambda>_. CHR ''o''"] show ?thesis by auto
qed

text \<open>
  C2: compaction is unobservable on entries in order. After any sequence of full merges of
  a prefix and partial merges of neighbouring operands, a lookup still returns, and what it
  returns has the content that the base and all merged operands had before.
\<close>

theorem compaction_keeps_content:
  assumes "entry_ok base_wf op_wf op_touch e"
    and "compacts (\<lambda>b xs. FullMergeV2 b xs []) (\<lambda>x y. PartialMerge x y []) e e'"
  shows "\<exists>r. entry_get (\<lambda>b xs. FullMergeV2 b xs []) e' = Inr r \<and> base_wf r \<and>
    base_content r = fold op_act (operands e) (base_content (base e))"
proof -
  obtain r where r: "entry_get (\<lambda>b xs. FullMergeV2 b xs []) e' = Inr r"
    using vive.get_compacted_total [OF assms(2,1)] by blast
  from vive.get_compacted [OF assms(2,1) r] r show ?thesis by (auto simp: entry_sem_def)
qed

theorem compaction_keeps_content_witness:
  "\<exists>z r. PartialMerge sample_op1 sample_op3 [] = Inr z \<and>
     entry_get (\<lambda>b xs. FullMergeV2 b xs []) (Entry None [z]) = Inr r \<and> base_content r 3 = CHR ''C''"
proof -
  obtain z where z: "PartialMerge sample_op1 sample_op3 [] = Inr z"
    using PartialMerge_total [of sample_op1 sample_op3] by auto
  let ?e = "Entry None [sample_op1, sample_op3]"
  have ok: "entry_ok base_wf op_wf op_touch ?e" by (simp add: entry_ok_def base_wf_def)
  have "compact (\<lambda>b xs. FullMergeV2 b xs []) (\<lambda>x y. PartialMerge x y []) (Entry None ([] @ sample_op1 # sample_op3 # []))
      (Entry None ([] @ z # []))"
    by (rule compact.fold_pair) (rule z)
  then have "compacts (\<lambda>b xs. FullMergeV2 b xs []) (\<lambda>x y. PartialMerge x y []) ?e (Entry None [z])" by simp
  from compaction_keeps_content [OF ok this] z show ?thesis
    by (fastforce simp: sample_acts)
qed

text \<open>
  C37: an operand at the last byte of its extent, the operand of a one-byte write there,
  makes \<open>PartialMerge\<close> fail its assertion with whatever operand it is combined with: the
  offset \<open>0xffff\<close> is taken for the mark of a full extent.
\<close>

theorem partial_merge_asserts_on_last_byte:
  assumes "op_wf x" and "op_wf y" and "op_off x = 65535 \<or> op_off y = 65535"
  shows "PartialMerge x y [] = Inl AssertFailed"
  using assms op_wfD [OF assms(1)] op_wfD [OF assms(2)]
  by (auto simp: PartialMerge_def vn_merge_def mem_simps simp del: bindR_eq_Inr)

theorem partial_merge_asserts_on_last_byte_witness:
  "op_wf sample_op1 \<and> op_wf sample_op_last \<and> PartialMerge sample_op1 sample_op_last [] = Inl AssertFailed"
  using partial_merge_asserts_on_last_byte [of sample_op1 sample_op_last] by simp

end
