(* ===== verification/Keys.thy ===== *)
theory Keys
  imports Prelude "HOL-Library.Sublist"
begin

text \<open>
  The keys of the two column families. \<open>meta_cf\<close> holds directory entries under the text
  \<open><parent>_<name>\<close> (\<open>format_string("%ld_%s", ...)\<close> in \<open>src/src/vn_file.cpp\<close>), inodes under
  the eight bytes of their number, and two fixed names; \<open>data_cf\<close> holds extents under
  sixteen bytes. The lemmas show that the kinds of key do not collide, and up to which
  inode number a directory scan meets directory entries only.
\<close>

section \<open>Definitions\<close>

definition INODE_SEED_KEY :: slice where
  "INODE_SEED_KEY = ''__inode_seed__''"

definition SUPERBLOCK_KEY :: slice where
  "SUPERBLOCK_KEY = ''vivefs_sb''"

text \<open>The text that \<open>printf\<close> produces for \<open>%ld\<close>, and for \<open>%ld_%s\<close>.\<close>

fun dec_nat :: "nat \<Rightarrow> string" where
  "dec_nat n = (if n < 10 then [char_of (48 + n)] else dec_nat (n div 10) @ [char_of (48 + n mod 10)])"

declare dec_nat.simps [simp del]

definition printf_ld :: "int \<Rightarrow> string" where
  "printf_ld i = (if i < 0 then CHR ''-'' # dec_nat (nat (- i)) else dec_nat (nat i))"

definition printf_ld_s :: "int \<Rightarrow> string \<Rightarrow> string" where
  "printf_ld_s i s = printf_ld i @ CHR ''_'' # s"

definition inode_key :: "64 word \<Rightarrow> slice" where
  "inode_key i_no = word_bytes i_no"

record vn_extent_key =
  extent_index :: "64 word"
  inode_no :: "64 word"

definition extent_key_bytes :: "vn_extent_key \<Rightarrow> slice" where
  "extent_key_bytes k = word_bytes (extent_index k) @ word_bytes (inode_no k)"

text \<open>\<open>vn_extent_key::to_string\<close>, used in log messages; \<open>snprintf\<close> keeps 63 characters.\<close>

definition extent_key_to_string :: "vn_extent_key \<Rightarrow> string" where
  "extent_key_to_string k =
     take 63 (''[ino:'' @ printf_ld (sint (inode_no k)) @ '', index:'' @
              printf_ld (sint (extent_index k)) @ '']'')"

text \<open>\<open>ExtPrefixExtrator\<close>: the bytes of \<open>inode_no\<close> inside the key.\<close>

definition Transform :: "slice \<Rightarrow> slice result" where
  "Transform key = load_bytes key 8 8"

definition InDomain :: "slice \<Rightarrow> bool" where
  "InDomain key = True"

section \<open>Decimal numerals\<close>

definition digits :: "char set" where
  "digits = char_of ` {48..57 :: nat}"

definition undec :: "string \<Rightarrow> nat" where
  "undec = foldl (\<lambda>a c. 10 * a + (of_char c - 48)) 0"

lemma undec_dec_nat [simp]: "undec (dec_nat n) = n"
proof (induction n rule: dec_nat.induct)
  case (1 n)
  then show ?case by (subst dec_nat.simps) (auto simp: undec_def)
qed

lemma dec_nat_inject [simp]: "dec_nat m = dec_nat n \<longleftrightarrow> m = n"
  by (metis undec_dec_nat)

lemma dec_nat_nonempty [simp]: "dec_nat n \<noteq> []"
  by (subst dec_nat.simps) simp

lemma set_dec_nat: "set (dec_nat n) \<subseteq> digits"
proof (induction n rule: dec_nat.induct)
  case (1 n)
  have "char_of (48 + n mod 10) \<in> digits" by (auto simp: digits_def intro!: imageI)
  with 1 show ?case
    by (subst dec_nat.simps) (auto simp: digits_def intro!: imageI)
qed

lemma of_char_digit: "c \<in> digits \<Longrightarrow> 48 \<le> (of_char c :: nat) \<and> (of_char c :: nat) \<le> 57"
  by (auto simp: digits_def)

lemma digits_no_sep [simp]: "CHR ''_'' \<notin> digits" "CHR ''-'' \<notin> digits"
  using of_char_digit by fastforce+

lemma printf_ld_inject [simp]: "printf_ld i = printf_ld j \<longleftrightarrow> i = j"
proof -
  have "CHR ''-'' # xs \<noteq> dec_nat n" for xs n
    using set_dec_nat [of n] by (metis digits_no_sep(2) list.set_intros(1) subsetD)
  then show ?thesis
    by (auto simp: printf_ld_def) (metis+)
qed

lemma dec_nat_not_digit: "c \<notin> digits \<Longrightarrow> c \<notin> set (dec_nat n)"
  using set_dec_nat by blast

lemma hd_dec_nat: "hd (dec_nat n) \<in> digits"
  using set_dec_nat hd_in_set [OF dec_nat_nonempty] by blast

lemma printf_ld_no_sep: "CHR ''_'' \<notin> set (printf_ld i)"
  by (simp add: printf_ld_def dec_nat_not_digit)

lemma printf_ld_nonempty [simp]: "printf_ld i \<noteq> []"
  by (simp add: printf_ld_def)

lemma hd_printf_ld: "hd (printf_ld i) \<in> insert (CHR ''-'') digits"
  by (simp add: printf_ld_def hd_dec_nat)

lemma printf_ld_single: "length (printf_ld i) = 1 \<Longrightarrow> hd (printf_ld i) \<in> digits"
  by (auto simp: printf_ld_def hd_dec_nat)

section \<open>Directory keys\<close>

definition split_key :: "slice \<Rightarrow> slice \<times> slice" where
  "split_key k = (takeWhile (\<lambda>c. c \<noteq> CHR ''_'') k, tl (dropWhile (\<lambda>c. c \<noteq> CHR ''_'') k))"

lemma split_key_printf: "split_key (printf_ld_s i s) = (printf_ld i, s)"
proof -
  have "\<forall>c\<in>set (printf_ld i). c \<noteq> CHR ''_''" using printf_ld_no_sep by metis
  then show ?thesis
    by (simp add: split_key_def printf_ld_s_def takeWhile_append dropWhile_append)
qed

lemma printf_ld_s_inject [simp]: "printf_ld_s i s = printf_ld_s j t \<longleftrightarrow> i = j \<and> s = t"
  by (metis prod.inject printf_ld_inject split_key_printf)

lemma prefix_printf_ld_s [simp]: "prefix (printf_ld_s i []) (printf_ld_s j s) \<longleftrightarrow> i = j"
proof
  assume "prefix (printf_ld_s i []) (printf_ld_s j s)"
  then obtain t where "printf_ld_s j s = printf_ld_s i t"
    by (auto simp: prefix_def printf_ld_s_def)
  then show "i = j" by simp
qed (simp add: printf_ld_s_def)

text \<open>The entry name that follows the directory's prefix is the name the key was built from.\<close>

lemma drop_prefix_printf_ld_s [simp]:
  "drop (length (printf_ld_s i [])) (printf_ld_s i s) = s"
  by (simp add: printf_ld_s_def)

lemma printf_ld_s_not_fixed [simp]:
  "printf_ld_s i s \<noteq> INODE_SEED_KEY" "printf_ld_s i s \<noteq> SUPERBLOCK_KEY"
  "INODE_SEED_KEY \<noteq> printf_ld_s i s" "SUPERBLOCK_KEY \<noteq> printf_ld_s i s"
proof -
  have "hd (printf_ld_s i s) \<in> insert (CHR ''-'') digits"
    using hd_printf_ld by (simp add: printf_ld_s_def)
  moreover have "CHR ''v'' \<notin> digits"
    using of_char_digit by fastforce
  ultimately have "hd (printf_ld_s i s) \<noteq> hd INODE_SEED_KEY" "hd (printf_ld_s i s) \<noteq> hd SUPERBLOCK_KEY"
    by (auto simp: INODE_SEED_KEY_def SUPERBLOCK_KEY_def)
  then show "printf_ld_s i s \<noteq> INODE_SEED_KEY" "printf_ld_s i s \<noteq> SUPERBLOCK_KEY"
    "INODE_SEED_KEY \<noteq> printf_ld_s i s" "SUPERBLOCK_KEY \<noteq> printf_ld_s i s"
    by metis+
qed

interpretation name_key: codec "\<lambda>(i, s). printf_ld_s i s"
  "\<lambda>k. (let (d, s) = split_key k in
     (if hd d = CHR ''-'' then - int (undec (tl d)) else int (undec d), s))" "\<lambda>_. True"
proof unfold_locales
  fix x :: "int \<times> string"
  have "hd (dec_nat n) \<noteq> CHR ''-''" for n using hd_dec_nat [of n] by auto
  then show "(\<lambda>k. (let (d, s) = split_key k in
     (if hd d = CHR ''-'' then - int (undec (tl d)) else int (undec d), s)))
     ((\<lambda>(i, s). printf_ld_s i s) x) = x"
    by (cases x) (simp add: split_key_printf printf_ld_def)
qed

section \<open>Inode and extent keys\<close>

lemma le_bytes_nth: "i < k \<Longrightarrow> le_bytes k v ! i = char_of (v div 256 ^ i)"
proof (induction k arbitrary: v i)
  case (Suc k)
  then show ?case
    by (cases i) (auto simp: div_mult2_eq)
qed simp

lemma length_inode_key [simp]: "length (inode_key n) = 8"
  by (simp add: inode_key_def)

lemma inode_key_inject [simp]: "inode_key m = inode_key n \<longleftrightarrow> m = n"
  by (simp add: inode_key_def le64.enc_eq_iff)

lemma inode_key_not_fixed [simp]:
  "inode_key n \<noteq> INODE_SEED_KEY" "inode_key n \<noteq> SUPERBLOCK_KEY"
  "INODE_SEED_KEY \<noteq> inode_key n" "SUPERBLOCK_KEY \<noteq> inode_key n"
  by (auto simp: INODE_SEED_KEY_def SUPERBLOCK_KEY_def dest!: arg_cong [where f = length])

lemma fixed_keys_distinct [simp]: "INODE_SEED_KEY \<noteq> SUPERBLOCK_KEY" "SUPERBLOCK_KEY \<noteq> INODE_SEED_KEY"
  by (simp_all add: INODE_SEED_KEY_def SUPERBLOCK_KEY_def)

lemma inode_key_nth: "i < 8 \<Longrightarrow> inode_key n ! i = char_of (unat n div 256 ^ i)"
  by (simp add: inode_key_def word_bytes_def le_bytes_nth)

text \<open>
  A file name holds no zero byte, so a directory key never ends in one; the key of an inode
  number below \<open>2^56\<close> always does.
\<close>

lemma inode_key_not_name_key:
  assumes "CHR 0x00 \<notin> set s" and "unat n < 2 ^ 56"
  shows "inode_key n \<noteq> printf_ld_s i s"
proof
  assume eq: "inode_key n = printf_ld_s i s"
  have "last (inode_key n) = inode_key n ! 7"
    by (subst last_conv_nth) (auto simp flip: length_0_conv)
  also have "\<dots> = CHR 0x00" using assms(2) by (simp add: inode_key_nth char_of_def)
  finally have "last (inode_key n) = CHR 0x00" .
  moreover have "last (printf_ld_s i s) \<in> insert (CHR ''_'') (set s)"
    by (simp add: printf_ld_s_def)
  ultimately show False using eq assms(1) by auto
qed

text \<open>
  A directory scan selects keys by the prefix \<open><parent>_\<close>. An inode key can begin that way
  only from inode number 24368 on: the bytes of \<open>0_\<close> read as a number.
\<close>

lemma inode_key_prefix_bound:
  assumes "prefix (printf_ld_s i []) (inode_key n)"
  shows "24368 \<le> unat n"
proof -
  let ?k = "length (printf_ld i)" and ?v = "unat n"
  from assms obtain t where t: "inode_key n = printf_ld i @ CHR ''_'' # t"
    by (auto simp: prefix_def printf_ld_s_def)
  then have k: "?k < 8" using length_inode_key [of n] by simp
  have "inode_key n ! ?k = CHR ''_''" using t by simp
  with k have "char_of (?v div 256 ^ ?k) = CHR ''_''" by (simp add: inode_key_nth)
  then have "of_char (char_of (?v div 256 ^ ?k)) = (of_char (CHR ''_'') :: nat)" by simp
  then have sep: "?v div 256 ^ ?k mod 256 = 95" by simp
  have "?k \<noteq> 0" by simp
  then consider "?k = 1" | "2 \<le> ?k" by linarith
  then show ?thesis
  proof cases
    case 1
    then have "hd (printf_ld i) \<in> digits" by (rule printf_ld_single)
    moreover have "hd (printf_ld i) = inode_key n ! 0"
      using t by (simp add: hd_conv_nth nth_append)
    ultimately have "48 \<le> ?v mod 256"
      using of_char_digit [of "inode_key n ! 0"] by (simp add: inode_key_nth)
    moreover have "95 \<le> ?v div 256" using sep 1 by simp
    ultimately show ?thesis using div_mult_mod_eq [of ?v 256] by linarith
  next
    case 2
    have "95 \<le> ?v div 256 ^ ?k" using sep by (metis mod_less_eq_dividend)
    then have "95 * 256 ^ ?k \<le> ?v" by (simp add: less_eq_div_iff_mult_less_eq)
    moreover have "(256 :: nat) ^ 2 \<le> 256 ^ ?k" using 2 by (intro power_increasing) auto
    ultimately show ?thesis by simp
  qed
qed

interpretation ext_key: fixed_codec extent_key_bytes
  "\<lambda>s. \<lparr>extent_index = bytes_word (take 8 s), inode_no = bytes_word (drop 8 s)\<rparr>" "\<lambda>_. True" 16
  by unfold_locales (simp_all add: extent_key_bytes_def)

lemma extent_key_inject [simp]:
  "extent_key_bytes k = extent_key_bytes l \<longleftrightarrow> k = l"
  by (rule ext_key.enc_eq_iff) simp_all

lemma Transform_extent_key:
  "Transform (extent_key_bytes k) = Inr (word_bytes (inode_no k))"
  by (simp add: Transform_def load_bytes_def extent_key_bytes_def)

text \<open>The key of inode 24370 begins with the prefix of the root directory.\<close>

lemma root_prefix_collision: "prefix (printf_ld_s 2 []) (inode_key 24370)"
proof -
  have "dec_nat 2 = ''2''" by (subst dec_nat.simps) (simp add: char_of_def bit_0)
  then have "printf_ld_s 2 [] = ''2_''" by (simp add: printf_ld_s_def printf_ld_def)
  moreover have "inode_key 24370 ! 0 = CHR ''2''" "inode_key 24370 ! 1 = CHR ''_''"
    by (simp_all add: inode_key_nth char_of_def bit_0)
  then have "take 2 (inode_key 24370) = ''2_''"
    by (simp add: numeral_2_eq_2 take_Suc_conv_app_nth)
  ultimately show ?thesis using take_is_prefix [of 2 "inode_key 24370"] by simp
qed

section \<open>Properties\<close>

text \<open>
  The keys of the metadata column family do not collide. For names without a zero byte
  and inode numbers below \<open>2^56\<close>, a directory entry has one key per directory and name, an
  inode one key per number, and directory keys, inode keys, the seed key and the superblock
  key are pairwise different.
\<close>

theorem metadata_keys_disjoint:
  assumes "CHR 0x00 \<notin> set s" and "unat n < 2 ^ 56"
  shows "printf_ld_s i s \<noteq> inode_key n \<and>
    (printf_ld_s i s = printf_ld_s j t \<longleftrightarrow> i = j \<and> s = t) \<and>
    (inode_key n = inode_key m \<longleftrightarrow> n = m) \<and>
    {printf_ld_s i s, inode_key n} \<inter> {INODE_SEED_KEY, SUPERBLOCK_KEY} = {} \<and>
    INODE_SEED_KEY \<noteq> SUPERBLOCK_KEY"
  using inode_key_not_name_key [OF assms, of i] by auto

theorem metadata_keys_disjoint_witness: "printf_ld_s 2 ''a'' \<noteq> inode_key 12"
  using metadata_keys_disjoint [of "''a''" 12 2] by simp

text \<open>
  C26: a directory scan selects the entries of its directory. The prefix of directory \<open>i\<close> is
  the beginning of the key of an entry of \<open>j\<close> only if \<open>i = j\<close>, what follows it is the
  entry's name, and it is the beginning of no inode key below inode number 24368. Beyond that
  directories see foreign keys: the prefix of the root directory begins the key of inode
  24370, so listing the root runs into an inode record.
\<close>

theorem directory_prefix_selects:
  assumes "unat n < 24368"
  shows "\<not> prefix (printf_ld_s i []) (inode_key n) \<and>
    (prefix (printf_ld_s i []) (printf_ld_s j s) \<longleftrightarrow> i = j) \<and>
    drop (length (printf_ld_s i [])) (printf_ld_s i s) = s \<and>
    prefix (printf_ld_s 2 []) (inode_key 24370)"
  using assms inode_key_prefix_bound [of i n] root_prefix_collision by auto

theorem directory_prefix_selects_witness: "\<not> prefix (printf_ld_s 2 []) (inode_key 12)"
  using directory_prefix_selects [of 12 2] by simp

text \<open>
  The extent keys of one file share the value of the prefix extractor and those of
  different files do not; but that value is the second half of the key, not a prefix of it.
\<close>

theorem extent_transform:
  "\<exists>t. Transform (extent_key_bytes k) = Inr t \<and>
     (Transform (extent_key_bytes l) = Inr t \<longleftrightarrow> inode_no k = inode_no l) \<and>
     (prefix t (extent_key_bytes k) \<longleftrightarrow> extent_index k = inode_no k)"
proof -
  have "prefix (word_bytes (inode_no k)) (extent_key_bytes k) \<longleftrightarrow> word_bytes (inode_no k) = word_bytes (extent_index k)"
    by (auto simp: extent_key_bytes_def prefix_def)
  then show ?thesis
    by (auto simp: Transform_extent_key le64.enc_eq_iff)
qed

end
