(* ===== verification/Store.thy ===== *)
theory Store
  imports DataMerge Keys
begin

text \<open>
  The code that the sources call and do not contain, as a parameter of the model: RocksDB's
  transactions, lookups and iterators, and PureFlash's \<open>format_string\<close>. The record
  \<open>ext\<close> holds the functions; the locale \<open>rocksdb\<close> states what RocksDB documents of them, in
  terms of the history of each key; \<open>rocksdb_reliable\<close> adds that no call fails. An
  in-memory store with injectable faults is an instance of both.
\<close>

section \<open>The interface\<close>

datatype cf = default_cf | meta_cf | data_cf

text \<open>A RocksDB \<open>Status\<close>: \<open>Err\<close> carries any code other than \<open>kOk\<close> and \<open>kNotFound\<close>.\<close>

datatype status = Ok | NotFound | Err int

definition status_code :: "status \<Rightarrow> int" where
  "status_code s = (case s of Ok \<Rightarrow> 0 | NotFound \<Rightarrow> 1 | Err c \<Rightarrow> c)"

record ('db, 'tx) ext =
  format_string :: "int \<Rightarrow> string \<Rightarrow> string"
  BeginTransaction :: "'db \<Rightarrow> 'tx"
  GetForUpdate :: "'db \<Rightarrow> 'tx \<Rightarrow> cf \<Rightarrow> slice \<Rightarrow> status \<times> slice \<times> 'tx"
  Put :: "'tx \<Rightarrow> cf \<Rightarrow> slice \<Rightarrow> slice \<Rightarrow> status \<times> 'tx"
  Merge :: "'tx \<Rightarrow> cf \<Rightarrow> slice \<Rightarrow> slice \<Rightarrow> status \<times> 'tx"
  Delete :: "'tx \<Rightarrow> cf \<Rightarrow> slice \<Rightarrow> status \<times> 'tx"
  Commit :: "'tx \<Rightarrow> 'db \<Rightarrow> status \<times> 'db"
  Rollback :: "'tx \<Rightarrow> 'db \<Rightarrow> 'db"
  Get :: "'db \<Rightarrow> cf \<Rightarrow> slice \<Rightarrow> status \<times> slice"
  Scan :: "'db \<Rightarrow> cf \<Rightarrow> slice \<Rightarrow> (slice \<times> slice) list"
  FlushWAL :: "bool \<Rightarrow> 'db \<Rightarrow> status \<times> 'db"

text \<open>
  What a transaction has buffered, and what committing it does to the history of the keys.
\<close>

datatype wop = WPut cf slice slice | WMerge cf slice slice | WDelete cf slice

type_synonym hist = "cf \<Rightarrow> slice \<Rightarrow> entry"

primrec apply_wop :: "wop \<Rightarrow> hist \<Rightarrow> hist" where
  "apply_wop (WPut c k v) H = H(c := (H c)(k := entry_put v))"
| "apply_wop (WMerge c k v) H = H(c := (H c)(k := entry_merge v (H c k)))"
| "apply_wop (WDelete c k) H = H(c := (H c)(k := entry_delete))"

abbreviation apply_batch :: "wop list \<Rightarrow> hist \<Rightarrow> hist" where
  "apply_batch \<equiv> fold apply_wop"

primrec wop_cf :: "wop \<Rightarrow> cf" where
  "wop_cf (WPut c k v) = c"
| "wop_cf (WMerge c k v) = c"
| "wop_cf (WDelete c k) = c"

primrec wop_key :: "wop \<Rightarrow> slice" where
  "wop_key (WPut c k v) = k"
| "wop_key (WMerge c k v) = k"
| "wop_key (WDelete c k) = k"

text \<open>Operations on other keys, or on another column family, leave a key alone.\<close>

lemma apply_wop_other: "wop_cf w \<noteq> c \<or> wop_key w \<noteq> k \<Longrightarrow> apply_wop w H c k = H c k"
  by (cases w) auto

lemma apply_batch_other:
  "\<forall>w\<in>set ws. wop_cf w \<noteq> c \<or> wop_key w \<noteq> k \<Longrightarrow> apply_batch ws H c k = H c k"
  by (induction ws arbitrary: H) (simp_all add: apply_wop_other)

text \<open>A value that a lookup of an entry may produce, after any compaction.\<close>

abbreviation full_merge_of :: full_merge where
  "full_merge_of \<equiv> \<lambda>b xs. FullMergeV2 b xs []"

abbreviation partial_merge_of :: partial_merge where
  "partial_merge_of \<equiv> \<lambda>x y. PartialMerge x y []"

definition entry_reads :: "entry \<Rightarrow> slice \<Rightarrow> bool" where
  "entry_reads e v \<longleftrightarrow>
     (\<exists>e'. compacts full_merge_of partial_merge_of e e' \<and> entry_get full_merge_of e' = Inr (Some v))"

text \<open>An entry whose lookup cannot go wrong: no operand is pending, or all fit together.\<close>

definition entry_sound :: "entry \<Rightarrow> bool" where
  "entry_sound e \<longleftrightarrow> operands e = [] \<or> entry_ok base_wf op_wf op_touch e"

lemma entry_reads_plain [simp]: "entry_reads (Entry b []) v \<longleftrightarrow> b = Some v"
  by (auto simp: entry_reads_def entry_get_def)

lemma entry_reads_put [simp]: "entry_reads (entry_put v) w \<longleftrightarrow> v = w"
  by (simp add: entry_put_def)

lemma entry_reads_delete [simp]: "\<not> entry_reads entry_delete v"
  by (simp add: entry_delete_def)

lemma entry_sound_plain [simp]: "entry_sound (entry_put v)" "entry_sound entry_delete"
  by (simp_all add: entry_sound_def entry_put_def entry_delete_def)

lemma entry_put_not_delete [simp]: "entry_put v \<noteq> entry_delete"
  by (simp add: entry_put_def entry_delete_def)

section \<open>What RocksDB promises\<close>

locale rocksdb =
  fixes E :: "('db, 'tx) ext"
    and hist :: "'db \<Rightarrow> hist"
    and batch :: "'tx \<Rightarrow> wop list"
  assumes format_printf: "format_string E i nm = printf_ld_s i nm"
    and begin_empty: "batch (BeginTransaction E d) = []"
    and gfu_batch: "GetForUpdate E d t c k = (s, v, t') \<Longrightarrow> batch t' = batch t"
    and gfu_ok: "GetForUpdate E d t c k = (Ok, v, t') \<Longrightarrow>
      entry_reads (apply_batch (batch t) (hist d) c k) v"
    and gfu_notfound: "GetForUpdate E d t c k = (NotFound, v, t') \<Longrightarrow>
      apply_batch (batch t) (hist d) c k = entry_delete"
    and put_batch: "Put E t c k v = (s, t') \<Longrightarrow>
      batch t' = (if s = Ok then batch t @ [WPut c k v] else batch t)"
    and merge_batch: "Merge E t c k v = (s, t') \<Longrightarrow>
      batch t' = (if s = Ok then batch t @ [WMerge c k v] else batch t)"
    and delete_batch: "Delete E t c k = (s, t') \<Longrightarrow>
      batch t' = (if s = Ok then batch t @ [WDelete c k] else batch t)"
    and commit_hist: "Commit E t d = (s, d') \<Longrightarrow>
      hist d' = (if s = Ok then apply_batch (batch t) (hist d) else hist d)"
    and rollback_hist: "hist (Rollback E t d) = hist d"
    and get_ok: "Get E d c k = (Ok, v) \<Longrightarrow> entry_reads (hist d c k) v"
    and get_notfound: "Get E d c k = (NotFound, v) \<Longrightarrow> hist d c k = entry_delete"
    and get_fail: "Get E d c k = (s, v) \<Longrightarrow> s \<noteq> Ok \<Longrightarrow> v = []"
    and scan_sorted: "sorted_wrt (<) (map fst (Scan E d c k0))"
    and scan_sound: "(k, v) \<in> set (Scan E d c k0) \<Longrightarrow> k0 \<le> k \<and> entry_reads (hist d c k) v"
    and flush_hist: "FlushWAL E b d = (s, d') \<Longrightarrow> hist d' = hist d"

locale rocksdb_reliable = rocksdb +
  assumes put_succeeds: "fst (Put E t c k v) = Ok"
    and merge_succeeds: "fst (Merge E t c k v) = Ok"
    and delete_succeeds: "fst (Delete E t c k) = Ok"
    and commit_succeeds: "fst (Commit E t d) = Ok"
    and flush_succeeds: "fst (FlushWAL E b d) = Ok"
    and get_status: "entry_sound (hist d c k) \<Longrightarrow>
      fst (Get E d c k) = (if hist d c k = entry_delete then NotFound else Ok)"
    and gfu_status: "entry_sound (apply_batch (batch t) (hist d) c k) \<Longrightarrow>
      fst (GetForUpdate E d t c k) =
        (if apply_batch (batch t) (hist d) c k = entry_delete then NotFound else Ok)"
    and scan_complete: "k0 \<le> k \<Longrightarrow> entry_sound (hist d c k) \<Longrightarrow> hist d c k \<noteq> entry_delete \<Longrightarrow>
      k \<in> fst ` set (Scan E d c k0)"

context rocksdb_reliable
begin

lemma get_put: "hist d c k = entry_put v \<Longrightarrow> Get E d c k = (Ok, v)"
  using get_status [of d c k] get_ok [of d c k] by (cases "Get E d c k") auto

lemma get_deleted: "hist d c k = entry_delete \<Longrightarrow> Get E d c k = (NotFound, [])"
  using get_status [of d c k] get_fail [of d c k] by (cases "Get E d c k") auto

lemma put_ok: "\<exists>t'. Put E t c k v = (Ok, t') \<and> batch t' = batch t @ [WPut c k v]"
  using put_succeeds [of t c k v] put_batch [of t c k v] by (cases "Put E t c k v") auto

lemma delete_ok: "\<exists>t'. Delete E t c k = (Ok, t') \<and> batch t' = batch t @ [WDelete c k]"
  using delete_succeeds [of t c k] delete_batch [of t c k] by (cases "Delete E t c k") auto

lemma merge_ok: "\<exists>t'. Merge E t c k v = (Ok, t') \<and> batch t' = batch t @ [WMerge c k v]"
  using merge_succeeds [of t c k v] merge_batch [of t c k v] by (cases "Merge E t c k v") auto

lemma commit_ok: "\<exists>d'. Commit E t d = (Ok, d') \<and> hist d' = apply_batch (batch t) (hist d)"
  using commit_succeeds [of t d] commit_hist [of t d] by (cases "Commit E t d") auto

end

section \<open>An in-memory store\<close>

text \<open>
  The instance: a list of entries, newest first, and transactions that are lists of
  operations. \<open>faults\<close> says which calls fail, and whether lookups first squash pending
  operands with partial merges, as a compaction would.
\<close>

type_synonym memdb = "((cf \<times> slice) \<times> entry) list"

record faults =
  fail_get :: "cf \<Rightarrow> slice \<Rightarrow> bool"
  fail_write :: "cf \<Rightarrow> slice \<Rightarrow> bool"
  fail_commit :: bool
  fail_flush :: bool
  squash_operands :: bool

definition no_faults :: faults where
  "no_faults = \<lparr>fail_get = (\<lambda>_ _. False), fail_write = (\<lambda>_ _. False), fail_commit = False,
     fail_flush = False, squash_operands = False\<rparr>"

fun squash :: "slice list \<Rightarrow> slice list" where
  "squash (x # y # xs) =
     (case PartialMerge x y [] of Inr z \<Rightarrow> squash (z # xs) | Inl _ \<Rightarrow> x # y # xs)"
| "squash xs = xs"

definition mem_hist :: "memdb \<Rightarrow> hist" where
  "mem_hist db c k = (case map_of db (c, k) of None \<Rightarrow> entry_delete | Some e \<Rightarrow> e)"

definition mem_apply :: "wop \<Rightarrow> memdb \<Rightarrow> memdb" where
  "mem_apply w db = ((wop_cf w, wop_key w), apply_wop w (mem_hist db) (wop_cf w) (wop_key w)) # db"

definition mem_read :: "faults \<Rightarrow> memdb \<Rightarrow> cf \<Rightarrow> slice \<Rightarrow> status \<times> slice" where
  "mem_read F db c k =
     (if fail_get F c k then (Err 5, [])
      else let e = mem_hist db c k;
               e' = (if squash_operands F then Entry (base e) (squash (operands e)) else e)
           in case entry_get full_merge_of e' of
                Inl _ \<Rightarrow> (Err 2, [])
              | Inr None \<Rightarrow> (NotFound, [])
              | Inr (Some v) \<Rightarrow> (Ok, v))"

definition mem_write :: "faults \<Rightarrow> wop list \<Rightarrow> wop \<Rightarrow> status \<times> wop list" where
  "mem_write F t w = (if fail_write F (wop_cf w) (wop_key w) then (Err 11, t) else (Ok, t @ [w]))"

definition mem_scan :: "faults \<Rightarrow> memdb \<Rightarrow> cf \<Rightarrow> slice \<Rightarrow> (slice \<times> slice) list" where
  "mem_scan F db c k0 =
     map (\<lambda>k. (k, snd (mem_read F db c k)))
       (filter (\<lambda>k. k0 \<le> k \<and> fst (mem_read F db c k) = Ok)
         (sort (remdups (map (snd \<circ> fst) (filter (\<lambda>e. fst (fst e) = c) db)))))"

definition mem_ext :: "faults \<Rightarrow> (memdb, wop list) ext" where
  "mem_ext F =
     \<lparr>format_string = printf_ld_s,
      BeginTransaction = (\<lambda>_. []),
      GetForUpdate = (\<lambda>d t c k. case mem_read F (fold mem_apply t d) c k of (s, v) \<Rightarrow> (s, v, t)),
      Put = (\<lambda>t c k v. mem_write F t (WPut c k v)),
      Merge = (\<lambda>t c k v. mem_write F t (WMerge c k v)),
      Delete = (\<lambda>t c k. mem_write F t (WDelete c k)),
      Commit = (\<lambda>t d. if fail_commit F then (Err 5, d) else (Ok, fold mem_apply t d)),
      Rollback = (\<lambda>_ d. d),
      Get = mem_read F,
      Scan = mem_scan F,
      FlushWAL = (\<lambda>_ d. if fail_flush F then (Err 5, d) else (Ok, d))\<rparr>"

lemma mem_hist_apply [simp]: "mem_hist (mem_apply w db) = apply_wop w (mem_hist db)"
  by (cases w) (auto simp: mem_hist_def mem_apply_def fun_eq_iff)

lemma mem_hist_batch [simp]: "mem_hist (fold mem_apply ws db) = apply_batch ws (mem_hist db)"
  by (induction ws arbitrary: db) simp_all

lemma squash_compacts: "compacts full_merge_of partial_merge_of (Entry b xs) (Entry b (squash xs))"
proof (induction xs rule: squash.induct)
  case (1 x y xs)
  show ?case
  proof (cases "PartialMerge x y []")
    case (Inr z)
    then have "compact full_merge_of partial_merge_of (Entry b ([] @ x # y # xs)) (Entry b ([] @ z # xs))"
      by (intro compact.fold_pair) simp
    with 1 Inr show ?thesis by (auto intro: converse_rtranclp_into_rtranclp)
  qed simp
qed simp_all

lemma squash_Nil [simp]: "squash xs = [] \<longleftrightarrow> xs = []"
  by (induction xs rule: squash.induct) (auto split: sum.splits)

lemma entry_get_None: "entry_get full e = Inr None \<longleftrightarrow> e = entry_delete"
  by (cases e) (auto simp: entry_get_def entry_delete_def)

lemma mem_read_cases:
  assumes "mem_read F db c k = (s, v)"
  shows "s = Ok \<Longrightarrow> entry_reads (mem_hist db c k) v"
    and "s = NotFound \<Longrightarrow> mem_hist db c k = entry_delete"
    and "s \<noteq> Ok \<Longrightarrow> v = []"
proof -
  let ?e = "mem_hist db c k"
  let ?e' = "if squash_operands F then Entry (base ?e) (squash (operands ?e)) else ?e"
  have comp: "compacts full_merge_of partial_merge_of ?e ?e'"
    using squash_compacts [of "base ?e" "operands ?e"] by simp
  show "entry_reads ?e v" if "s = Ok"
    using assms that comp unfolding entry_reads_def
    by (auto simp: mem_read_def Let_def split: if_splits sum.splits option.splits)
  show "?e = entry_delete" if "s = NotFound"
  proof -
    have "?e' = entry_delete"
      using assms that entry_get_None by (auto simp: mem_read_def Let_def split: if_splits sum.splits option.splits)
    with comp have "compacts full_merge_of partial_merge_of ?e entry_delete" by (simp only:)
    then show ?thesis by (rule compacts_to_deleted)
  qed
  show "v = []" if "s \<noteq> Ok"
    using assms that by (auto simp: mem_read_def Let_def split: if_splits sum.splits option.splits)
qed

lemma mem_read_status:
  assumes "entry_sound (mem_hist db c k)"
  shows "fst (mem_read no_faults db c k) = (if mem_hist db c k = entry_delete then NotFound else Ok)"
proof -
  let ?e = "mem_hist db c k"
  obtain r where "entry_get full_merge_of ?e = Inr r"
    using assms vive.get_total [of ?e] by (auto simp: entry_sound_def entry_get_def)
  then show ?thesis
    using entry_get_None [of full_merge_of ?e]
    by (cases r) (auto simp: mem_read_def no_faults_def Let_def)
qed

lemma mem_hist_in_keys:
  "mem_hist db c k \<noteq> entry_delete \<Longrightarrow> k \<in> set (map (snd \<circ> fst) (filter (\<lambda>e. fst (fst e) = c) db))"
  by (force simp: mem_hist_def split: option.splits dest: map_of_SomeD)

lemma mem_write_batch: "mem_write F t w = (s, t') \<Longrightarrow> t' = (if s = Ok then t @ [w] else t)"
  by (auto simp: mem_write_def split: if_splits)

lemma mem_ext_simps [simp]:
  "format_string (mem_ext F) = printf_ld_s"
  "BeginTransaction (mem_ext F) d = []"
  "GetForUpdate (mem_ext F) d t c k = (case mem_read F (fold mem_apply t d) c k of (s, v) \<Rightarrow> (s, v, t))"
  "Put (mem_ext F) t c k v = mem_write F t (WPut c k v)"
  "Merge (mem_ext F) t c k v = mem_write F t (WMerge c k v)"
  "Delete (mem_ext F) t c k = mem_write F t (WDelete c k)"
  "Commit (mem_ext F) t d = (if fail_commit F then (Err 5, d) else (Ok, fold mem_apply t d))"
  "Rollback (mem_ext F) t d = d"
  "Get (mem_ext F) = mem_read F"
  "Scan (mem_ext F) = mem_scan F"
  "FlushWAL (mem_ext F) b d = (if fail_flush F then (Err 5, d) else (Ok, d))"
  by (simp_all add: mem_ext_def)

lemma mem_scan_sorted: "sorted_wrt (<) (map fst (mem_scan F d c k0))"
proof -
  have 1: "sorted_wrt (<) (sort (remdups (ks :: slice list)))" for ks
    unfolding strict_sorted_iff by (intro conjI sorted_sort) (simp only: distinct_sort distinct_remdups)
  show ?thesis
    unfolding mem_scan_def map_map comp_def fst_conv list.map_ident by (rule sorted_wrt_filter, rule 1 [unfolded comp_def])
qed

lemma mem_scan_sound:
  assumes "(k, v) \<in> set (mem_scan F d c k0)"
  shows "k0 \<le> k \<and> entry_reads (mem_hist d c k) v"
proof -
  from assms have "k0 \<le> k" "fst (mem_read F d c k) = Ok" "v = snd (mem_read F d c k)"
    unfolding mem_scan_def set_map set_filter by blast+
  then show ?thesis using mem_read_cases(1) [of F d c k Ok v] by (cases "mem_read F d c k") simp
qed

interpretation mem: rocksdb "mem_ext F" mem_hist "\<lambda>t. t"
proof (unfold_locales, unfold mem_ext_simps, goal_cases)
  case (3 d t c k s v t')
  then show ?case by (simp add: split_beta)
next
  case (4 d t c k v t')
  then show ?case
    using mem_read_cases(1) [of F "fold mem_apply t d" c k Ok v] by (auto split: prod.splits)
next
  case (5 d t c k v t')
  then show ?case
    using mem_read_cases(2) [of F "fold mem_apply t d" c k NotFound v] by (auto split: prod.splits)
qed (auto simp: mem_read_cases mem_scan_sorted mem_write_batch split: if_splits dest: mem_scan_sound)

interpretation mem_reliable: rocksdb_reliable "mem_ext no_faults" mem_hist "\<lambda>t. t"
proof unfold_locales
  show "fst (Get (mem_ext no_faults) d c k) = (if mem_hist d c k = entry_delete then NotFound else Ok)"
    if "entry_sound (mem_hist d c k)" for d c k
    using mem_read_status [OF that] by simp
  show "fst (GetForUpdate (mem_ext no_faults) d t c k) =
      (if apply_batch t (mem_hist d) c k = entry_delete then NotFound else Ok)"
    if "entry_sound (apply_batch t (mem_hist d) c k)" for d t c k
    using mem_read_status [of "fold mem_apply t d" c k] that by (simp add: split_beta)
  show "k \<in> fst ` set (Scan (mem_ext no_faults) d c k0)"
    if "k0 \<le> k" "entry_sound (mem_hist d c k)" "mem_hist d c k \<noteq> entry_delete" for k0 k d c
    using that mem_read_status [of d c k] mem_hist_in_keys [of d c k]
    by (simp add: mem_scan_def image_image)
qed (simp_all add: mem_write_def no_faults_def)

end
