(* ===== verification/Inode.thy ===== *)
theory Inode
  imports Prelude
begin

text \<open>
  \<open>struct ViveInode\<close> and \<open>struct ViveFile\<close> of \<open>src/include\<close>: the 256-byte memory image that
  is stored under the inode's key, the reference counting of in-memory inodes, and the
  allocation and (de)serialization helpers of \<open>src/src/vn_file.cpp\<close>. In-memory inodes live
  in an explicit heap, because an open file and its opener share one inode.
\<close>

section \<open>Inodes and open files\<close>

definition VIVEFS_INODE_SIZE :: nat where
  "VIVEFS_INODE_SIZE = 256"

record ViveInode =
  i_no :: "64 word"
  i_size :: "64 word"
  i_atime :: "64 word"
  i_ctime :: "64 word"
  i_mtime :: "64 word"
  i_dtime :: "64 word"
  i_mode :: "16 word"
  i_uid :: "16 word"
  i_gid :: "16 word"
  i_links_count :: "16 word"
  i_flags :: "32 word"
  i_extent_size :: "32 word"
  reserve :: "64 word list"
  reserve_1 :: "32 word"
  ref_cnt :: "32 word"

text \<open>The bytes of the struct in memory, and the struct read back from bytes.\<close>

definition inode_bytes :: "ViveInode \<Rightarrow> slice" where
  "inode_bytes n =
     word_bytes (i_no n) @ word_bytes (i_size n) @ word_bytes (i_atime n) @ word_bytes (i_ctime n) @
     word_bytes (i_mtime n) @ word_bytes (i_dtime n) @ word_bytes (i_mode n) @ word_bytes (i_uid n) @
     word_bytes (i_gid n) @ word_bytes (i_links_count n) @ word_bytes (i_flags n) @
     word_bytes (i_extent_size n) @ concat (map word_bytes (reserve n)) @
     word_bytes (reserve_1 n) @ word_bytes (ref_cnt n)"

definition field :: "slice \<Rightarrow> nat \<Rightarrow> nat \<Rightarrow> 'a::len word" where
  "field s off n = bytes_word (take n (drop off s))"

definition inode_of_bytes :: "slice \<Rightarrow> ViveInode" where
  "inode_of_bytes s =
     \<lparr>i_no = field s 0 8, i_size = field s 8 8, i_atime = field s 16 8, i_ctime = field s 24 8,
      i_mtime = field s 32 8, i_dtime = field s 40 8, i_mode = field s 48 2, i_uid = field s 50 2,
      i_gid = field s 52 2, i_links_count = field s 54 2, i_flags = field s 56 4,
      i_extent_size = field s 60 4, reserve = map (\<lambda>j. field s (64 + 8 * j) 8) [0..<23],
      reserve_1 = field s 248 4, ref_cnt = field s 252 4\<rparr>"

definition inode_valid :: "ViveInode \<Rightarrow> bool" where
  "inode_valid n \<longleftrightarrow> length (reserve n) = 23"

definition zero_inode :: ViveInode where
  "zero_inode =
     \<lparr>i_no = 0, i_size = 0, i_atime = 0, i_ctime = 0, i_mtime = 0, i_dtime = 0, i_mode = 0,
      i_uid = 0, i_gid = 0, i_links_count = 0, i_flags = 0, i_extent_size = 0,
      reserve = replicate 23 0, reserve_1 = 0, ref_cnt = 0\<rparr>"

text \<open>The flags \<open>noatime\<close>, \<open>nomtime\<close> and \<open>dirty\<close> are integers used as truth values.\<close>

record ViveFile =
  inode :: nat
  fi_no :: "64 word"
  file_name :: string
  parent_inode_no :: "64 word"
  noatime :: bool
  nomtime :: bool
  dirty :: bool

definition new_ViveFile :: ViveFile where
  "new_ViveFile = \<lparr>inode = 0, fi_no = 0, file_name = [], parent_inode_no = 0,
     noatime = False, nomtime = False, dirty = False\<rparr>"

section \<open>The heap of in-memory inodes\<close>

text \<open>
  Address 0 is the null pointer. What the C library decides is a parameter: the clock, and
  for each allocation whether it succeeds (inodes by address, write buffers by one flag).
\<close>

record inode_heap =
  cells :: "nat \<Rightarrow> ViveInode option"
  next_addr :: nat

record sysenv =
  now :: "64 word"
  inode_mem :: "nat \<Rightarrow> bool"
  buf_mem :: bool

definition heap_get :: "inode_heap \<Rightarrow> nat \<Rightarrow> ViveInode result" where
  "heap_get h p =
     (if p = 0 then Inl NullDeref
      else case cells h p of None \<Rightarrow> Inl UseAfterFree | Some n \<Rightarrow> Inr n)"

definition heap_set :: "inode_heap \<Rightarrow> nat \<Rightarrow> ViveInode \<Rightarrow> inode_heap" where
  "heap_set h p n = h\<lparr>cells := (cells h)(p := Some n)\<rparr>"

definition heap_free :: "inode_heap \<Rightarrow> nat \<Rightarrow> inode_heap" where
  "heap_free h p = h\<lparr>cells := (cells h)(p := None)\<rparr>"

definition heap_alloc :: "inode_heap \<Rightarrow> ViveInode \<Rightarrow> nat \<times> inode_heap" where
  "heap_alloc h n =
     (next_addr h, h\<lparr>cells := (cells h)(next_addr h := Some n), next_addr := Suc (next_addr h)\<rparr>)"

text \<open>\<open>vn_alloc_inode\<close> writes through the result of \<open>calloc\<close> without testing it.\<close>

definition vn_alloc_inode :: "sysenv \<Rightarrow> inode_heap \<Rightarrow> (nat \<times> inode_heap) result" where
  "vn_alloc_inode env h =
     (if inode_mem env (next_addr h) then Inr (heap_alloc h (zero_inode\<lparr>ref_cnt := 1\<rparr>))
      else Inl NullDeref)"

definition deserialize_inode :: "sysenv \<Rightarrow> inode_heap \<Rightarrow> slice \<Rightarrow> (nat \<times> inode_heap) result" where
  "deserialize_inode env h buf =
     (if \<not> inode_mem env (next_addr h) then Inr (0, h)
      else bindR (load_bytes buf 0 VIVEFS_INODE_SIZE) (\<lambda>b.
           Inr (heap_alloc h ((inode_of_bytes b)\<lparr>ref_cnt := 1\<rparr>))))"

definition vn_add_inode_ref :: "inode_heap \<Rightarrow> nat \<Rightarrow> inode_heap result" where
  "vn_add_inode_ref h p =
     bindR (heap_get h p) (\<lambda>n. Inr (heap_set h p (n\<lparr>ref_cnt := ref_cnt n + 1\<rparr>)))"

definition vn_dec_inode_ref :: "inode_heap \<Rightarrow> nat \<Rightarrow> inode_heap result" where
  "vn_dec_inode_ref h p =
     bindR (heap_get h p) (\<lambda>n.
       if ref_cnt n - 1 = 0 then Inr (heap_free h p)
       else Inr (heap_set h p (n\<lparr>ref_cnt := ref_cnt n - 1\<rparr>)))"

definition delete_ViveFile :: "inode_heap \<Rightarrow> ViveFile \<Rightarrow> inode_heap result" where
  "delete_ViveFile h f = (if inode f \<noteq> 0 then vn_dec_inode_ref h (inode f) else Inr h)"

definition vn_ino_of_file :: "ViveFile \<Rightarrow> int" where
  "vn_ino_of_file f = sint (fi_no f)"

section \<open>The memory image is an encoding of the inode\<close>

lemma length_concat_words [simp]:
  "length (concat (map (word_bytes :: 64 word \<Rightarrow> slice) ws)) = 8 * length ws"
  by (induction ws) auto

lemma length_inode_bytes [simp]: "inode_valid n \<Longrightarrow> length (inode_bytes n) = VIVEFS_INODE_SIZE"
  by (simp add: inode_bytes_def inode_valid_def VIVEFS_INODE_SIZE_def)

lemma concat_words_nth:
  "j < length ws \<Longrightarrow> take 8 (drop (8 * j) (concat (map (word_bytes :: 64 word \<Rightarrow> slice) ws))) = word_bytes (ws ! j)"
proof (induction ws arbitrary: j)
  case (Cons w ws)
  then show ?case by (cases j) auto
qed simp

lemma field_append [simp]:
  "length a \<le> off \<Longrightarrow> field (a @ s) off n = field s (off - length a) n"
  "length b = n \<Longrightarrow> field (b @ s) 0 n = bytes_word b"
  "length b = n \<Longrightarrow> field b 0 n = bytes_word b"
  by (simp_all add: field_def)

lemma inode_of_inode_bytes: "inode_valid n \<Longrightarrow> inode_of_bytes (inode_bytes n) = n"
proof -
  assume v: "inode_valid n"
  have "map (\<lambda>j. field (concat (map word_bytes (reserve n)) @ word_bytes (reserve_1 n) @ word_bytes (ref_cnt n))
      (8 * j) 8) [0..<23] = reserve n"
    using v by (intro nth_equalityI) (auto simp: inode_valid_def field_def concat_words_nth)
  then show ?thesis
    using v by (simp add: inode_of_bytes_def inode_bytes_def inode_valid_def)
qed

interpretation inode_image: codec inode_bytes inode_of_bytes inode_valid
  by unfold_locales (rule inode_of_inode_bytes)

lemma deserialize_inode_bytes:
  assumes "inode_valid n" and "inode_mem env (next_addr h)"
  shows "deserialize_inode env h (inode_bytes n) = Inr (next_addr h, snd (heap_alloc h (n\<lparr>ref_cnt := 1\<rparr>)))"
proof -
  have "load_bytes (inode_bytes n) 0 VIVEFS_INODE_SIZE = Inr (inode_bytes n)"
    using assms(1) by (simp add: load_bytes_def)
  then show ?thesis
    using assms by (simp add: deserialize_inode_def inode_image.dec_enc heap_alloc_def)
qed

lemma field_i_no [simp]: "field (inode_bytes n) 0 8 = i_no n"
  by (simp add: inode_bytes_def)

section \<open>Reference counting\<close>

lemma heap_get_set [simp]: "p \<noteq> 0 \<Longrightarrow> heap_get (heap_set h p n) p = Inr n"
  "p \<noteq> q \<Longrightarrow> heap_get (heap_set h p n) q = heap_get h q"
  by (simp_all add: heap_get_def heap_set_def)

lemma heap_get_Inr: "heap_get h p = Inr n \<longleftrightarrow> p \<noteq> 0 \<and> cells h p = Some n"
  by (auto simp: heap_get_def split: option.splits)

lemma heap_set_simps [simp]:
  "next_addr (heap_set h p n) = next_addr h" "cells (heap_set h p n) = (cells h)(p := Some n)"
  "heap_set (heap_set h p n) p m = heap_set h p m"
  by (simp_all add: heap_set_def)

lemma heap_set_same: "heap_get h p = Inr n \<Longrightarrow> heap_set h p n = h"
  by (cases h) (auto simp: heap_get_Inr heap_set_def)

lemma heap_free_set [simp]: "heap_free (heap_set h p n) p = heap_free h p"
  by (simp add: heap_free_def heap_set_def)

text \<open>Taking a reference and dropping it again leaves the heap as it was.\<close>

lemma add_dec_ref:
  assumes "heap_get h p = Inr n" and "ref_cnt n \<noteq> 0"
  shows "bindR (vn_add_inode_ref h p) (\<lambda>h. vn_dec_inode_ref h p) = Inr h"
  using assms heap_get_Inr [of h p n]
  by (auto simp: vn_add_inode_ref_def vn_dec_inode_ref_def heap_set_same)

text \<open>An inode with one reference is freed by dropping it; any later use is a fault.\<close>

lemma dec_last_ref:
  assumes "heap_get h p = Inr n" and "ref_cnt n = 1"
  shows "vn_dec_inode_ref h p = Inr (heap_free h p)"
    and "vn_dec_inode_ref (heap_free h p) p = Inl UseAfterFree"
  using assms heap_get_Inr [of h p n]
  by (auto simp: vn_dec_inode_ref_def heap_get_def heap_free_def)

lemma heap_get_alloc [simp]:
  "next_addr h \<noteq> 0 \<Longrightarrow> heap_alloc h n = (p, h') \<Longrightarrow> heap_get h' p = Inr n"
  by (auto simp: heap_alloc_def heap_get_def)

text \<open>A heap whose unused addresses are free.\<close>

definition heap_fresh :: "inode_heap \<Rightarrow> bool" where
  "heap_fresh h \<longleftrightarrow> next_addr h \<noteq> 0 \<and> (\<forall>p \<ge> next_addr h. cells h p = None)"

lemma heap_alloc_free:
  "heap_fresh h \<Longrightarrow> cells (heap_free (snd (heap_alloc h n)) (next_addr h)) = cells h"
  by (auto simp: heap_fresh_def heap_alloc_def heap_free_def fun_eq_iff)

section \<open>Properties\<close>

definition sample_env :: sysenv where
  "sample_env = \<lparr>now = 7, inode_mem = (\<lambda>_. True), buf_mem = True\<rparr>"

definition sample_heap :: inode_heap where
  "sample_heap = \<lparr>cells = (\<lambda>_. None), next_addr = 1\<rparr>"

lemma sample_env_simps [simp]: "now sample_env = 7" "inode_mem sample_env a" "buf_mem sample_env"
  by (simp_all add: sample_env_def)

lemma sample_heap_simps [simp]: "next_addr sample_heap = 1" "cells sample_heap p = None"
  by (simp_all add: sample_heap_def)

lemma sample_heap_fresh [simp]: "heap_fresh sample_heap"
  by (simp add: heap_fresh_def)

lemma inode_valid_zero [simp]: "inode_valid zero_inode"
  by (simp add: inode_valid_def zero_inode_def)

text \<open>
  Storing an inode and reading it back returns every persistent field. The stored image
  is exactly 256 bytes long, no two inodes share it, and \<open>deserialize_inode\<close> of it allocates
  the same inode with a reference count of one.
\<close>

theorem inode_store_load:
  assumes "inode_valid n" and "inode_valid m" and "inode_mem env (next_addr h)" and "next_addr h \<noteq> 0"
  shows "length (inode_bytes n) = 256 \<and> (inode_bytes n = inode_bytes m \<longleftrightarrow> n = m) \<and>
    (\<exists>h'. deserialize_inode env h (inode_bytes n) = Inr (next_addr h, h') \<and>
      heap_get h' (next_addr h) = Inr (n\<lparr>ref_cnt := 1\<rparr>))"
  using assms deserialize_inode_bytes [OF assms(1,3)] inode_image.enc_eq_iff [OF assms(1,2)]
  by (simp add: VIVEFS_INODE_SIZE_def heap_alloc_def heap_get_def)

theorem inode_store_load_witness:
  "\<exists>h'. deserialize_inode sample_env sample_heap (inode_bytes (zero_inode\<lparr>i_no := 12\<rparr>)) = Inr (1, h') \<and>
     heap_get h' 1 = Inr (zero_inode\<lparr>i_no := 12, ref_cnt := 1\<rparr>)"
  using inode_store_load [of "zero_inode\<lparr>i_no := 12\<rparr>" zero_inode sample_env sample_heap]
  by (simp add: inode_valid_def zero_inode_def)

end
