(* ===== verification/Namespace.thy ===== *)
theory Namespace
  imports Store Inode
begin

text \<open>
  The metadata operations of \<open>src/src/vn_file.cpp\<close>: creating, looking up and unlinking
  directory entries, listing a directory, and storing inodes. Each operation is one
  function from the mounted file system and the heap of in-memory inodes to its return
  value and the new state; the transaction it runs, its early returns and the rollback
  that the \<open>Cleaner\<close> guard performs on them are written out.
\<close>

section \<open>The mounted file system\<close>

definition VN_ROOT_INO :: "64 word" where
  "VN_ROOT_INO = 2"

definition VN_FIRST_USER_INO :: "64 word" where
  "VN_FIRST_USER_INO = 12"

text \<open>\<open>root_inode\<close> is the address of the inode embedded in the context.\<close>

record 'db ViveFsContext =
  db_path :: string
  db :: 'db
  root_inode :: nat
  root_file :: ViveFile
  inode_seed :: "64 word"
  lazy_time :: bool
  relatime :: bool

definition generate_inode_no :: "'db ViveFsContext \<Rightarrow> 64 word \<times> 'db ViveFsContext" where
  "generate_inode_no ctx = (inode_seed ctx, ctx\<lparr>inode_seed := inode_seed ctx + 1\<rparr>)"

definition vn_get_root_inode :: "'db ViveFsContext \<Rightarrow> nat" where
  "vn_get_root_inode ctx = root_inode ctx"

text \<open>The error numbers of \<open>errno.h\<close> that the code returns.\<close>

definition ENOENT :: int where "ENOENT = 2"
definition EIO :: int where "EIO = 5"
definition ENOMEM :: int where "ENOMEM = 12"
definition EEXIST :: int where "EEXIST = 17"

text \<open>The \<open>Cleaner\<close> guard: leaving the scope without \<open>cancel_all\<close> rolls back.\<close>

definition rollback :: "('db, 'tx) ext \<Rightarrow> 'tx \<Rightarrow> 'db ViveFsContext \<Rightarrow> 'db ViveFsContext" where
  "rollback E tx ctx = ctx\<lparr>db := Rollback E tx (db ctx)\<rparr>"

section \<open>Storing inodes\<close>

definition vn_persist_inode_tx :: "('db, 'tx) ext \<Rightarrow> 'tx \<Rightarrow> ViveInode \<Rightarrow> status \<times> 'tx" where
  "vn_persist_inode_tx E tx n = Put E tx meta_cf (inode_key (i_no n)) (inode_bytes n)"

text \<open>
  \<open>vn_persist_inode\<close> does not cancel its guard, so it rolls the transaction back after
  committing it as well.
\<close>

definition vn_persist_inode ::
  "('db, 'tx) ext \<Rightarrow> 'db ViveFsContext \<Rightarrow> inode_heap \<Rightarrow> nat \<Rightarrow> (int \<times> 'db ViveFsContext) result" where
  "vn_persist_inode E ctx h p =
     (let tx = BeginTransaction E (db ctx) in
      bindR (heap_get h p) (\<lambda>n.
        case vn_persist_inode_tx E tx n of (s, tx) \<Rightarrow>
        if s \<noteq> Ok then Inr (- EIO, rollback E tx ctx)
        else case Commit E tx (db ctx) of (s, d) \<Rightarrow>
        let ctx = rollback E tx (ctx\<lparr>db := d\<rparr>) in
        if s \<noteq> Ok then Inr (- EIO, ctx) else Inr (0, ctx)))"

section \<open>Directory entries\<close>

text \<open>
  \<open>vn_create_file\<close>. \<open>want_inode\<close> says whether the caller passed \<open>inode_out\<close>; the second
  component of the result is what is stored there, 0 when nothing is.
\<close>

definition new_inode ::
  "sysenv \<Rightarrow> 64 word \<Rightarrow> 16 word \<Rightarrow> 16 word \<Rightarrow> 16 word \<Rightarrow> ViveInode \<Rightarrow> ViveInode" where
  "new_inode env ino mode uid gid n =
     n\<lparr>i_links_count := 1, i_mode := mode, i_no := ino, i_extent_size := of_nat VIVEFS_EXTENT_SIZE,
       i_atime := now env, i_ctime := now env, i_mtime := now env, i_uid := uid, i_gid := gid\<rparr>"

definition vn_create_file ::
  "('db, 'tx) ext \<Rightarrow> sysenv \<Rightarrow> 'db ViveFsContext \<Rightarrow> inode_heap \<Rightarrow> 64 word \<Rightarrow> string \<Rightarrow>
   16 word \<Rightarrow> 16 word \<Rightarrow> 16 word \<Rightarrow> bool \<Rightarrow> (int \<times> nat \<times> 'db ViveFsContext \<times> inode_heap) result" where
  "vn_create_file E env ctx h parent_ino fname mode uid gid want_inode =
     bindR (vn_alloc_inode env h) (\<lambda>(p, h).
     bindR (heap_get h p) (\<lambda>n.
       case generate_inode_no ctx of (ino, ctx) \<Rightarrow>
       let n = new_inode env ino mode uid gid n;
           h = heap_set h p n;
           file_key = format_string E (sint parent_ino) fname;
           tx = BeginTransaction E (db ctx)
       in case GetForUpdate E (db ctx) tx meta_cf file_key of (s, old_inode, tx) \<Rightarrow>
       if s = Ok then Inr (- EEXIST, 0, rollback E tx ctx, h)
       else case Put E tx meta_cf file_key (word_bytes ino) of (s, tx) \<Rightarrow>
       if s \<noteq> Ok then Inr (- EIO, 0, rollback E tx ctx, h)
       else case vn_persist_inode_tx E tx n of (s, tx) \<Rightarrow>
       if s \<noteq> Ok then Inr (- EIO, 0, rollback E tx ctx, h)
       else case Put E tx meta_cf INODE_SEED_KEY (word_bytes (inode_seed ctx)) of (s, tx) \<Rightarrow>
       if s \<noteq> Ok then Inr (- EIO, 0, rollback E tx ctx, h)
       else case Commit E tx (db ctx) of (s, d) \<Rightarrow>
       if s \<noteq> Ok then Inr (- EIO, 0, rollback E tx (ctx\<lparr>db := d\<rparr>), h)
       else let ctx = ctx\<lparr>db := d\<rparr> in
            if want_inode then Inr (sint ino, p, ctx, h)
            else bindR (vn_dec_inode_ref h p) (\<lambda>h. Inr (sint ino, 0, ctx, h))))"

text \<open>
  \<open>vn_lookup_inode_no\<close>: only \<open>NotFound\<close> is tested, so after any other failure of the
  lookup the code reads from an empty buffer.
\<close>

definition vn_lookup_inode_no ::
  "('db, 'tx) ext \<Rightarrow> sysenv \<Rightarrow> 'db ViveFsContext \<Rightarrow> inode_heap \<Rightarrow> 64 word \<Rightarrow> string \<Rightarrow> bool \<Rightarrow>
   (int \<times> nat \<times> inode_heap) result" where
  "vn_lookup_inode_no E env ctx h parent_ino fname want_inode =
     (let file_key = format_string E (sint parent_ino) fname in
      case Get E (db ctx) meta_cf file_key of (s, inode_no_buf) \<Rightarrow>
      if s = NotFound then Inr (-1, 0, h)
      else if want_inode then
        (case Get E (db ctx) meta_cf inode_no_buf of (s, inode_buf) \<Rightarrow>
         if s = NotFound then Inr (-1, 0, h)
         else bindR (deserialize_inode env h inode_buf) (\<lambda>(p, h).
              if p = 0 then Inr (-1, 0, h)
              else bindR (load_bytes inode_no_buf 0 8) (\<lambda>b.
                   Inr (sint (bytes_word b :: 64 word), p, h))))
      else bindR (load_bytes inode_no_buf 0 8) (\<lambda>b. Inr (sint (bytes_word b :: 64 word), 0, h)))"

text \<open>The loop that deletes the extents \<open>0 .. cnt - 1\<close> of a file; statuses are not tested.\<close>

definition delete_extent :: "('db, 'tx) ext \<Rightarrow> cf \<Rightarrow> 64 word \<Rightarrow> nat \<Rightarrow> 'tx \<Rightarrow> 'tx" where
  "delete_extent E c ino i tx =
     snd (Delete E tx c (extent_key_bytes \<lparr>extent_index = of_nat i, inode_no = ino\<rparr>))"

definition delete_extents :: "('db, 'tx) ext \<Rightarrow> cf \<Rightarrow> 64 word \<Rightarrow> int \<Rightarrow> 'tx \<Rightarrow> 'tx" where
  "delete_extents E c ino ext_cnt tx = fold (delete_extent E c ino) [0..<nat ext_cnt] tx"

text \<open>\<open>(i_size + i_extent_size - 1) / i_extent_size\<close>, in unsigned 64-bit arithmetic.\<close>

definition extent_count :: "ViveInode \<Rightarrow> int result" where
  "extent_count n =
     (if i_extent_size n = 0 then Inl DivByZero
      else Inr (s64 (u64 (uint (i_size n) + uint (i_extent_size n) - 1) div uint (i_extent_size n))))"

text \<open>\<open>vn_unlink\<close>. The extents are deleted from the default column family.\<close>

definition vn_unlink ::
  "('db, 'tx) ext \<Rightarrow> sysenv \<Rightarrow> 'db ViveFsContext \<Rightarrow> inode_heap \<Rightarrow> 64 word \<Rightarrow> string \<Rightarrow>
   (int \<times> 'db ViveFsContext \<times> inode_heap) result" where
  "vn_unlink E env ctx h parent_ino fname =
     bindR (vn_lookup_inode_no E env ctx h parent_ino fname True) (\<lambda>(ino, p, h).
       if ino < 0 then Inr (- ENOENT, ctx, h)
       else bindR (heap_get h p) (\<lambda>n.
         let tx = BeginTransaction E (db ctx);
             n = n\<lparr>i_links_count := i_links_count n - 1\<rparr>;
             h = heap_set h p n
         in bindR
              (if i_links_count n = 0 then
                 bindR (extent_count n) (\<lambda>cnt.
                   let tx = delete_extents E default_cf (i_no n) cnt tx in
                   Inr (Ok, snd (Delete E tx meta_cf (format_string E (sint parent_ino) fname))))
               else Inr (vn_persist_inode_tx E tx n))
              (\<lambda>(s, tx).
                if s \<noteq> Ok then
                  bindR (vn_dec_inode_ref h p) (\<lambda>h. Inr (- EIO, rollback E tx ctx, h))
                else case Commit E tx (db ctx) of (s, d) \<Rightarrow>
                if s \<noteq> Ok then
                  bindR (vn_dec_inode_ref h p) (\<lambda>h. Inr (- EIO, rollback E tx (ctx\<lparr>db := d\<rparr>), h))
                else bindR (vn_dec_inode_ref h p) (\<lambda>h. Inr (0, ctx\<lparr>db := d\<rparr>, h)))))"

text \<open>\<open>vn_rename_file\<close> only logs that it is not implemented.\<close>

definition vn_rename_file ::
  "'db ViveFsContext \<Rightarrow> 64 word \<Rightarrow> string \<Rightarrow> 64 word \<Rightarrow> string \<Rightarrow> int \<times> 'db ViveFsContext" where
  "vn_rename_file ctx old_dir old_name new_dir new_name = (0, ctx)"

section \<open>Listing a directory\<close>

text \<open>The iterator: the entries RocksDB's iterator has still to deliver, and the prefix.\<close>

record vn_inode_iterator =
  itor :: "(slice \<times> slice) list"
  dir_prefix :: slice

definition vn_begin_iterate_dir ::
  "('db, 'tx) ext \<Rightarrow> 'db ViveFsContext \<Rightarrow> 64 word \<Rightarrow> vn_inode_iterator" where
  "vn_begin_iterate_dir E ctx parent_ino =
     (let pre = format_string E (sint parent_ino) [] in
      \<lparr>itor = Scan E (db ctx) meta_cf pre, dir_prefix = pre\<rparr>)"

definition vn_iterator_has_next :: "vn_inode_iterator \<Rightarrow> bool" where
  "vn_iterator_has_next it = (case itor it of [] \<Rightarrow> False | (k, v) # _ \<Rightarrow> prefix (dir_prefix it) k)"

text \<open>
  \<open>vn_next_inode\<close> returns the inode (0 for \<open>NULL\<close>) and the entry name it copies out; the
  iterator advances only when an entry is delivered.
\<close>

definition vn_next_inode ::
  "('db, 'tx) ext \<Rightarrow> sysenv \<Rightarrow> 'db ViveFsContext \<Rightarrow> inode_heap \<Rightarrow> vn_inode_iterator \<Rightarrow> nat \<Rightarrow>
   (nat \<times> string \<times> vn_inode_iterator \<times> inode_heap) result" where
  "vn_next_inode E env ctx h it buf_len =
     (case itor it of
        [] \<Rightarrow> Inr (0, [], it, h)
      | (k, v) # rest \<Rightarrow>
          if \<not> prefix (dir_prefix it) k then Inr (0, [], it, h)
          else bindR (load_bytes v 0 8) (\<lambda>b.
            let ino = bytes_word b in
            case Get E (db ctx) meta_cf (inode_key ino) of (s, inode_buf) \<Rightarrow>
            if s = NotFound then Inr (0, [], it, h)
            else bindR (deserialize_inode env h inode_buf) (\<lambda>(p, h).
              if p = 0 then Inr (0, [], it, h)
              else bindR (heap_get h p) (\<lambda>n.
                let name = drop (length (dir_prefix it)) k in
                if i_no n \<noteq> ino then Inl AssertFailed
                else if \<not> length name < buf_len then Inl AssertFailed
                else Inr (p, name, it\<lparr>itor := rest\<rparr>, h)))))"

section \<open>What the metadata operations do to the store\<close>

definition created_inode :: "sysenv \<Rightarrow> 64 word \<Rightarrow> 16 word \<Rightarrow> 16 word \<Rightarrow> 16 word \<Rightarrow> ViveInode" where
  "created_inode env ino mode uid gid = new_inode env ino mode uid gid (zero_inode\<lparr>ref_cnt := 1\<rparr>)"

definition create_batch :: "64 word \<Rightarrow> string \<Rightarrow> ViveInode \<Rightarrow> wop list" where
  "create_batch parent_ino fname n =
     [WPut meta_cf (printf_ld_s (sint parent_ino) fname) (word_bytes (i_no n)),
      WPut meta_cf (inode_key (i_no n)) (inode_bytes n),
      WPut meta_cf INODE_SEED_KEY (word_bytes (i_no n + 1))]"

lemma inode_valid_created [simp]: "inode_valid (created_inode env ino mode uid gid)"
  by (simp add: created_inode_def new_inode_def zero_inode_def inode_valid_def)

lemma i_no_created [simp]: "i_no (created_inode env ino mode uid gid) = ino"
  by (simp add: created_inode_def new_inode_def)

lemma rollback_simps [simp]:
  "inode_seed (rollback E tx ctx) = inode_seed ctx" "db (rollback E tx ctx) = Rollback E tx (db ctx)"
  by (simp_all add: rollback_def)

context rocksdb
begin

lemma create_chain:
  assumes "GetForUpdate E d (BeginTransaction E d) meta_cf k = (s1, v1, t1)"
    and "Put E t1 meta_cf (printf_ld_s (sint parent_ino) fname) (word_bytes (i_no n)) = (Ok, t2)"
    and "Put E t2 meta_cf (inode_key (i_no n)) (inode_bytes n) = (Ok, t3)"
    and "Put E t3 meta_cf INODE_SEED_KEY (word_bytes (i_no n + 1)) = (Ok, t4)"
  shows "batch t4 = create_batch parent_ino fname n"
  using gfu_batch [OF assms(1)] put_batch [OF assms(2)] put_batch [OF assms(3)] put_batch [OF assms(4)]
  by (simp add: begin_empty create_batch_def)

lemma create_outcome:
  assumes "vn_create_file E env ctx h parent_ino fname mode uid gid want = Inr (r, p, ctx', h')"
    and "next_addr h \<noteq> 0"
  defines "n \<equiv> created_inode env (inode_seed ctx) mode uid gid"
  shows "inode_seed ctx' = inode_seed ctx + 1"
    and "(r = sint (inode_seed ctx) \<and> hist (db ctx') = apply_batch (create_batch parent_ino fname n) (hist (db ctx))) \<or>
      (r = - EEXIST \<and> hist (db ctx') = hist (db ctx)) \<or> (r = - EIO \<and> hist (db ctx') = hist (db ctx))"
proof -
  let ?k = "printf_ld_s (sint parent_ino) fname" and ?ino = "inode_seed ctx"
  have no: "i_no n = ?ino" by (simp add: n_def)
  obtain s1 v1 t1 where 1: "GetForUpdate E (db ctx) (BeginTransaction E (db ctx)) meta_cf ?k = (s1, v1, t1)"
    by (metis prod_cases3)
  obtain s2 t2 where 2: "Put E t1 meta_cf ?k (word_bytes ?ino) = (s2, t2)" by force
  obtain s3 t3 where 3: "Put E t2 meta_cf (inode_key ?ino) (inode_bytes n) = (s3, t3)" by force
  obtain s4 t4 where 4: "Put E t3 meta_cf INODE_SEED_KEY (word_bytes (?ino + 1)) = (s4, t4)" by force
  obtain s5 d5 where 5: "Commit E t4 (db ctx) = (s5, d5)" by force
  have nn: "new_inode env ?ino mode uid gid (zero_inode\<lparr>ref_cnt := 1\<rparr>) = n"
    by (simp add: n_def created_inode_def)
  note steps = 1 2 3 4 5 no nn
  note run = assms(1) [unfolded vn_create_file_def vn_alloc_inode_def generate_inode_no_def Let_def
      vn_persist_inode_tx_def format_printf, simplified]
  have "batch t4 = create_batch parent_ino fname n" if "s2 = Ok" "s3 = Ok" "s4 = Ok"
    using create_chain [OF 1, of parent_ino fname n t2 t3 t4] 2 3 4 that by (simp add: no)
  then show "(r = sint ?ino \<and> hist (db ctx') = apply_batch (create_batch parent_ino fname n) (hist (db ctx))) \<or>
      (r = - EEXIST \<and> hist (db ctx') = hist (db ctx)) \<or> (r = - EIO \<and> hist (db ctx') = hist (db ctx))"
    using run assms(2) commit_hist [OF 5]
    by (auto simp: steps rollback_hist heap_alloc_def heap_get_def split: if_splits)
  show "inode_seed ctx' = ?ino + 1"
    using run assms(2) by (auto simp: steps heap_alloc_def heap_get_def split: if_splits)
qed

end

lemma apply_create_batch:
  fixes H :: hist and parent_ino :: "64 word"
  assumes "CHR 0x00 \<notin> set fname" and "unat (i_no n) < 2 ^ 56"
  defines "H' \<equiv> apply_batch (create_batch parent_ino fname n) H"
  shows "H' meta_cf (printf_ld_s (sint parent_ino) fname) = entry_put (word_bytes (i_no n))"
    and "H' meta_cf (inode_key (i_no n)) = entry_put (inode_bytes n)"
    and "H' meta_cf INODE_SEED_KEY = entry_put (word_bytes (i_no n + 1))"
    and "k \<notin> {printf_ld_s (sint parent_ino) fname, inode_key (i_no n), INODE_SEED_KEY} \<Longrightarrow> H' meta_cf k = H meta_cf k"
    and "c \<noteq> meta_cf \<Longrightarrow> H' c = H c"
  using inode_key_not_name_key [OF assms(1,2), of "sint parent_ino"]
  by (auto simp: H'_def create_batch_def)

context rocksdb_reliable
begin

lemma create_run:
  fixes mode uid gid :: "16 word"
  assumes "inode_mem env (next_addr h)" and "next_addr h \<noteq> 0"
    and "hist (db ctx) meta_cf (printf_ld_s (sint parent_ino) fname) = entry_delete"
  defines "n \<equiv> created_inode env (inode_seed ctx) mode uid gid"
  shows "\<exists>d. vn_create_file E env ctx h parent_ino fname mode uid gid want =
      (if want then Inr (sint (inode_seed ctx), next_addr h, ctx\<lparr>inode_seed := inode_seed ctx + 1, db := d\<rparr>, snd (heap_alloc h n))
       else bindR (vn_dec_inode_ref (snd (heap_alloc h n)) (next_addr h)) (\<lambda>h. Inr (sint (inode_seed ctx), 0, ctx\<lparr>inode_seed := inode_seed ctx + 1, db := d\<rparr>, h))) \<and>
      hist d = apply_batch (create_batch parent_ino fname n) (hist (db ctx))"
proof -
  let ?k = "printf_ld_s (sint parent_ino) fname" and ?ino = "inode_seed ctx"
  let ?t0 = "BeginTransaction E (db ctx)"
  have no: "i_no n = ?ino" by (simp add: n_def)
  have nn: "new_inode env ?ino mode uid gid (zero_inode\<lparr>ref_cnt := 1\<rparr>) = n"
    by (simp add: n_def created_inode_def)
  obtain v1 t1 where 1: "GetForUpdate E (db ctx) ?t0 meta_cf ?k = (NotFound, v1, t1)"
    using gfu_status [of ?t0 "db ctx" meta_cf ?k] assms(3)
    by (cases "GetForUpdate E (db ctx) ?t0 meta_cf ?k") (auto simp: begin_empty)
  obtain t2 where 2: "Put E t1 meta_cf ?k (word_bytes ?ino) = (Ok, t2)" using put_ok by blast
  obtain t3 where 3: "Put E t2 meta_cf (inode_key ?ino) (inode_bytes n) = (Ok, t3)" using put_ok by blast
  obtain t4 where 4: "Put E t3 meta_cf INODE_SEED_KEY (word_bytes (?ino + 1)) = (Ok, t4)" using put_ok by blast
  obtain d5 where 5: "Commit E t4 (db ctx) = (Ok, d5)" using commit_ok by blast
  let ?c = "ctx\<lparr>inode_seed := ?ino + 1, db := d5\<rparr>"
  have run: "vn_create_file E env ctx h parent_ino fname mode uid gid want =
      (if want then Inr (sint ?ino, next_addr h, ?c, snd (heap_alloc h n))
       else bindR (vn_dec_inode_ref (snd (heap_alloc h n)) (next_addr h)) (\<lambda>h. Inr (sint ?ino, 0, ?c, h)))"
    using assms(1,2)
    by (cases h) (simp add: vn_create_file_def vn_alloc_inode_def generate_inode_no_def Let_def heap_alloc_def
        heap_get_def heap_set_def vn_persist_inode_tx_def format_printf 1 2 3 4 5 no nn)
  have "hist d5 = apply_batch (create_batch parent_ino fname n) (hist (db ctx))"
    using commit_hist [OF 5] create_chain [OF 1, of parent_ino fname n t2 t3 t4] 2 3 4 by (simp add: no)
  then show ?thesis using run by (intro exI [of _ d5]) simp
qed

lemma create_succeeds:
  fixes mode uid gid :: "16 word"
  assumes "inode_mem env (next_addr h)" and "next_addr h \<noteq> 0"
    and "hist (db ctx) meta_cf (printf_ld_s (sint parent_ino) fname) = entry_delete"
  defines "n \<equiv> created_inode env (inode_seed ctx) mode uid gid"
  shows "\<exists>ctx' h'. vn_create_file E env ctx h parent_ino fname mode uid gid True =
      Inr (sint (inode_seed ctx), next_addr h, ctx', h') \<and>
      hist (db ctx') = apply_batch (create_batch parent_ino fname n) (hist (db ctx)) \<and>
      inode_seed ctx' = inode_seed ctx + 1 \<and> heap_get h' (next_addr h) = Inr n"
  using create_run [OF assms(1-3), of mode uid gid True] assms(2)
  by (auto simp: n_def heap_alloc_def heap_get_def)

text \<open>Without \<open>inode_out\<close> the only reference is dropped again, and the inode is freed.\<close>

lemma create_drop:
  assumes "inode_mem env (next_addr h)" and h: "heap_fresh h"
    and "hist (db ctx) meta_cf (printf_ld_s (sint parent_ino) fname) = entry_delete"
  shows "\<exists>ctx' h'. vn_create_file E env ctx h parent_ino fname mode uid gid False =
      Inr (sint (inode_seed ctx), 0, ctx', h') \<and>
      hist (db ctx') = apply_batch (create_batch parent_ino fname (created_inode env (inode_seed ctx) mode uid gid)) (hist (db ctx)) \<and>
      inode_seed ctx' = inode_seed ctx + 1 \<and> cells h' = cells h \<and> next_addr h' = Suc (next_addr h)"
proof -
  let ?n = "created_inode env (inode_seed ctx) mode uid gid" and ?p = "next_addr h"
  have p: "?p \<noteq> 0" using h by (simp add: heap_fresh_def)
  let ?h = "snd (heap_alloc h ?n)"
  have "heap_get ?h ?p = Inr ?n" using p by (simp add: heap_alloc_def heap_get_def)
  moreover have "ref_cnt ?n = 1" by (simp add: created_inode_def new_inode_def)
  ultimately have "vn_dec_inode_ref ?h ?p = Inr (heap_free ?h ?p)" by (rule dec_last_ref(1))
  moreover have "next_addr (heap_free ?h ?p) = Suc ?p" by (simp add: heap_alloc_def heap_free_def)
  ultimately show ?thesis
    using create_run [OF assms(1) p assms(3), of mode uid gid False] heap_alloc_free [OF h, of ?n] by auto
qed

lemma create_refused:
  assumes "inode_mem env (next_addr h)" and "next_addr h \<noteq> 0"
    and "entry_sound (hist (db ctx) meta_cf (printf_ld_s (sint parent_ino) fname))"
    and "hist (db ctx) meta_cf (printf_ld_s (sint parent_ino) fname) \<noteq> entry_delete"
  shows "\<exists>ctx' h'. vn_create_file E env ctx h parent_ino fname mode uid gid want =
      Inr (- EEXIST, 0, ctx', h') \<and> hist (db ctx') = hist (db ctx)"
proof -
  let ?k = "printf_ld_s (sint parent_ino) fname" and ?t0 = "BeginTransaction E (db ctx)"
  obtain v1 t1 where 1: "GetForUpdate E (db ctx) ?t0 meta_cf ?k = (Ok, v1, t1)"
    using gfu_status [of ?t0 "db ctx" meta_cf ?k] assms(3,4)
    by (cases "GetForUpdate E (db ctx) ?t0 meta_cf ?k") (auto simp: begin_empty)
  then show ?thesis
    using assms(1,2)
    by (simp add: vn_create_file_def vn_alloc_inode_def generate_inode_no_def Let_def heap_alloc_def
        heap_get_def format_printf rollback_hist)
qed

lemma lookup_absent:
  assumes "hist (db ctx) meta_cf (printf_ld_s (sint parent_ino) fname) = entry_delete"
  shows "vn_lookup_inode_no E env ctx h parent_ino fname want = Inr (-1, 0, h)"
  using get_deleted [OF assms] by (simp add: vn_lookup_inode_no_def format_printf)

lemma lookup_present:
  assumes "hist (db ctx) meta_cf (printf_ld_s (sint parent_ino) fname) = entry_put (word_bytes ino)"
    and "hist (db ctx) meta_cf (inode_key ino) = entry_put (inode_bytes n)"
    and "inode_valid n" and "inode_mem env (next_addr h)" and "next_addr h \<noteq> 0"
  shows "vn_lookup_inode_no E env ctx h parent_ino fname True =
      Inr (sint ino, next_addr h, snd (heap_alloc h (n\<lparr>ref_cnt := 1\<rparr>)))"
    and "vn_lookup_inode_no E env ctx h parent_ino fname False = Inr (sint ino, 0, h)"
proof -
  note deserialize_inode_bytes [OF assms(3,4)]
  then show "vn_lookup_inode_no E env ctx h parent_ino fname True =
      Inr (sint ino, next_addr h, snd (heap_alloc h (n\<lparr>ref_cnt := 1\<rparr>)))"
    using get_put [OF assms(1)] get_put [OF assms(2) [unfolded inode_key_def]] assms(5)
    by (simp add: vn_lookup_inode_no_def format_printf load_bytes_def)
  show "vn_lookup_inode_no E env ctx h parent_ino fname False = Inr (sint ino, 0, h)"
    using get_put [OF assms(1)] by (simp add: vn_lookup_inode_no_def format_printf load_bytes_def)
qed

end

section \<open>Properties\<close>

definition sample_ctx :: "memdb ViveFsContext" where
  "sample_ctx = \<lparr>db_path = ''p'', db = [], root_inode = 0, root_file = new_ViveFile,
     inode_seed = 12, lazy_time = True, relatime = True\<rparr>"

lemma sample_ctx_simps [simp]: "db sample_ctx = []" "inode_seed sample_ctx = 12"
  by (simp_all add: sample_ctx_def)

lemma mem_hist_Nil [simp]: "mem_hist [] c k = entry_delete"
  by (simp add: mem_hist_def)

text \<open>
  C10: creating a file that does not exist, on a store that reports no failure, returns the
  next inode number and a reference to the new inode, and changes the metadata by exactly
  three entries: the name, the inode record and the advanced seed. File data is untouched.
\<close>

theorem create_new_file:
  fixes mode uid gid :: "16 word"
  assumes "rocksdb_reliable E hist batch"
    and "inode_mem env (next_addr h)" and "next_addr h \<noteq> 0"
    and "hist (db ctx) meta_cf (printf_ld_s (sint parent_ino) fname) = entry_delete"
    and "CHR 0x00 \<notin> set fname" and "unat (inode_seed ctx) < 2 ^ 56"
  shows "\<exists>ctx' h' n. vn_create_file E env ctx h parent_ino fname mode uid gid True =
      Inr (sint (inode_seed ctx), next_addr h, ctx', h') \<and>
    heap_get h' (next_addr h) = Inr n \<and> i_no n = inode_seed ctx \<and> i_size n = 0 \<and> i_links_count n = 1 \<and>
    i_mode n = mode \<and> ref_cnt n = 1 \<and> inode_seed ctx' = inode_seed ctx + 1 \<and>
    hist (db ctx') meta_cf = (hist (db ctx) meta_cf)
      (printf_ld_s (sint parent_ino) fname := entry_put (word_bytes (inode_seed ctx)),
       inode_key (inode_seed ctx) := entry_put (inode_bytes n),
       INODE_SEED_KEY := entry_put (word_bytes (inode_seed ctx + 1))) \<and>
    hist (db ctx') data_cf = hist (db ctx) data_cf"
proof -
  let ?n = "created_inode env (inode_seed ctx) mode uid gid"
  from rocksdb_reliable.create_succeeds [OF assms(1-4), of mode uid gid] obtain ctx' h' where
    c: "vn_create_file E env ctx h parent_ino fname mode uid gid True = Inr (sint (inode_seed ctx), next_addr h, ctx', h')"
      "hist (db ctx') = apply_batch (create_batch parent_ino fname ?n) (hist (db ctx))"
      "inode_seed ctx' = inode_seed ctx + 1" "heap_get h' (next_addr h) = Inr ?n" by blast
  have "hist (db ctx') meta_cf = (hist (db ctx) meta_cf)
      (printf_ld_s (sint parent_ino) fname := entry_put (word_bytes (inode_seed ctx)),
       inode_key (inode_seed ctx) := entry_put (inode_bytes ?n),
       INODE_SEED_KEY := entry_put (word_bytes (inode_seed ctx + 1)))"
    and "hist (db ctx') data_cf = hist (db ctx) data_cf"
    by (simp_all add: c(2) create_batch_def)
  moreover have "i_size ?n = 0" "i_links_count ?n = 1" "i_mode ?n = mode" "ref_cnt ?n = 1" "i_no ?n = inode_seed ctx"
    by (simp_all add: created_inode_def new_inode_def zero_inode_def)
  ultimately show ?thesis using c(1,3,4) by blast
qed

theorem create_new_file_witness:
  "\<exists>ctx' h'. vn_create_file (mem_ext no_faults) sample_env sample_ctx sample_heap 2 ''a'' 420 0 0 True =
     Inr (12, 1, ctx', h') \<and> inode_seed ctx' = 13 \<and>
     mem_hist (db ctx') meta_cf (printf_ld_s 2 ''a'') = entry_put (word_bytes (12 :: 64 word))"
proof -
  have k: "printf_ld_s 2 ''a'' \<noteq> inode_key 12"
    using inode_key_not_name_key [of "''a''" 12 2] by simp
  show ?thesis
    using create_new_file [OF mem_reliable.rocksdb_reliable_axioms, of sample_env sample_heap sample_ctx 2 "''a''" 420 0 0] k
    by (fastforce simp: sample_ctx_simps)
qed

text \<open>
  Creating a file whose name exists is refused with \<open>EEXIST\<close>, hands out no inode and
  leaves the store as it was.
\<close>

theorem create_existing_refused:
  assumes "rocksdb_reliable E hist batch"
    and "inode_mem env (next_addr h)" and "next_addr h \<noteq> 0"
    and "hist (db ctx) meta_cf (printf_ld_s (sint parent_ino) fname) = entry_put v"
  shows "\<exists>ctx' h'. vn_create_file E env ctx h parent_ino fname mode uid gid want = Inr (- EEXIST, 0, ctx', h') \<and>
    hist (db ctx') = hist (db ctx)"
  using rocksdb_reliable.create_refused [OF assms(1-3), of ctx parent_ino fname] assms(4) by simp

definition sample_ctx_a :: "memdb ViveFsContext" where
  "sample_ctx_a = sample_ctx\<lparr>db := [((meta_cf, printf_ld_s 2 ''a''), entry_put (word_bytes (12 :: 64 word))),
     ((meta_cf, inode_key 12), entry_put (inode_bytes (created_inode sample_env 12 420 0 0)))], inode_seed := 13\<rparr>"

lemma sample_ctx_a_hist:
  "mem_hist (db sample_ctx_a) meta_cf (printf_ld_s 2 ''a'') = entry_put (word_bytes (12 :: 64 word))"
  "mem_hist (db sample_ctx_a) meta_cf (inode_key 12) = entry_put (inode_bytes (created_inode sample_env 12 420 0 0))"
  using inode_key_not_name_key [of "''a''" 12 2] by (auto simp: sample_ctx_a_def mem_hist_def)

theorem create_existing_refused_witness:
  "\<exists>ctx' h'. vn_create_file (mem_ext no_faults) sample_env sample_ctx_a sample_heap 2 ''a'' 420 0 0 True =
     Inr (- EEXIST, 0, ctx', h') \<and> mem_hist (db ctx') = mem_hist (db sample_ctx_a)"
  using create_existing_refused [OF mem_reliable.rocksdb_reliable_axioms, of sample_env sample_heap sample_ctx_a 2 "''a''"]
    sample_ctx_a_hist(1) by simp

text \<open>
  C9: creation is atomic on every store, also one whose calls fail. Whenever
  \<open>vn_create_file\<close> returns, either it returns the new inode number and all three metadata
  entries are stored, or it returns \<open>EEXIST\<close> or \<open>EIO\<close> and nothing is stored; the in-memory
  seed advances in either case.
\<close>

theorem create_atomic:
  assumes "rocksdb E hist batch" and "next_addr h \<noteq> 0"
    and "vn_create_file E env ctx h parent_ino fname mode uid gid want = Inr (r, p, ctx', h')"
  shows "inode_seed ctx' = inode_seed ctx + 1 \<and>
    (r = sint (inode_seed ctx) \<and> hist (db ctx') = apply_batch
        (create_batch parent_ino fname (created_inode env (inode_seed ctx) mode uid gid)) (hist (db ctx)) \<or>
     r \<in> {- EEXIST, - EIO} \<and> hist (db ctx') = hist (db ctx))"
  using rocksdb.create_outcome [OF assms(1,3,2)] by auto

definition commit_fault :: faults where
  "commit_fault = no_faults\<lparr>fail_commit := True\<rparr>"

lemma commit_fault_simps [simp]:
  "fail_get commit_fault = (\<lambda>_ _. False)" "fail_write commit_fault = (\<lambda>_ _. False)"
  "fail_commit commit_fault" "\<not> squash_operands commit_fault"
  by (simp_all add: commit_fault_def no_faults_def)

theorem create_atomic_witness:
  "\<exists>ctx' h'. vn_create_file (mem_ext commit_fault) sample_env sample_ctx sample_heap 2 ''a'' 420 0 0 True =
     Inr (- EIO, 0, ctx', h') \<and> inode_seed ctx' = 13 \<and> mem_hist (db ctx') = mem_hist []"
proof -
  have rd: "mem_read commit_fault [] meta_cf k = (NotFound, [])" for k
    by (simp add: mem_read_def entry_get_def entry_delete_def)
  obtain ctx' h' where r: "vn_create_file (mem_ext commit_fault) sample_env sample_ctx sample_heap 2 ''a'' 420 0 0 True =
      Inr (- EIO, 0, ctx', h')"
    by (simp add: vn_create_file_def vn_alloc_inode_def generate_inode_no_def Let_def heap_alloc_def heap_get_def
        vn_persist_inode_tx_def rd mem_write_def del: bindR_eq_Inr)
  have ne: "- EIO \<noteq> sint (12 :: 64 word)" by (simp add: EIO_def)
  from create_atomic [OF mem.rocksdb_axioms _ r] r ne show ?thesis by auto
qed

text \<open>
  C39: looking up a created file returns its inode number, and the inode handed out has the
  stored attributes. A name that is not there gives \<open>-1\<close>.
\<close>

theorem lookup_finds_created:
  assumes "rocksdb_reliable E hist batch"
    and "inode_mem env (next_addr h)" and "next_addr h \<noteq> 0"
    and "CHR 0x00 \<notin> set fname" and "unat (inode_seed ctx) < 2 ^ 56"
    and "vn_create_file E env0 ctx h0 parent_ino fname mode uid gid want = Inr (r, p, ctx', h')"
    and "next_addr h0 \<noteq> 0" and "0 \<le> r"
  shows "\<exists>h''. vn_lookup_inode_no E env ctx' h parent_ino fname True = Inr (r, next_addr h, h'') \<and>
    heap_get h'' (next_addr h) = Inr (created_inode env0 (inode_seed ctx) mode uid gid)"
proof -
  let ?n = "created_inode env0 (inode_seed ctx) mode uid gid"
  have rs: "rocksdb E hist batch" using assms(1) by (rule rocksdb_reliable.axioms(1))
  from rocksdb.create_outcome(2) [OF rs assms(6,7)] assms(8)
  have r: "r = sint (inode_seed ctx)" and H: "hist (db ctx') = apply_batch (create_batch parent_ino fname ?n) (hist (db ctx))"
    by (auto simp: EEXIST_def EIO_def)
  have u: "unat (i_no ?n) < 2 ^ 56" using assms(5) by simp
  note b = apply_create_batch [OF assms(4) u, where parent_ino = parent_ino and H = "hist (db ctx)", folded H]
  have nn: "?n\<lparr>ref_cnt := 1\<rparr> = ?n" by (simp add: created_inode_def new_inode_def)
  from rocksdb_reliable.lookup_present(1) [OF assms(1) b(1) _ _ assms(2,3), of ?n] b(2)
  show ?thesis using assms(3) by (simp add: r nn heap_alloc_def heap_get_def)
qed

theorem lookup_finds_created_witness:
  "\<exists>ctx' h' h''. vn_create_file (mem_ext no_faults) sample_env sample_ctx sample_heap 2 ''a'' 420 0 0 True =
     Inr (12, 1, ctx', h') \<and>
     vn_lookup_inode_no (mem_ext no_faults) sample_env ctx' sample_heap 2 ''a'' True = Inr (12, 1, h'')"
proof -
  obtain ctx' h' where c: "vn_create_file (mem_ext no_faults) sample_env sample_ctx sample_heap 2 ''a'' 420 0 0 True =
      Inr (12, 1, ctx', h')"
    using mem_reliable.create_succeeds [of sample_env sample_heap sample_ctx 2 "''a''" 420 0 0] by auto
  from lookup_finds_created [OF mem_reliable.rocksdb_reliable_axioms _ _ _ _ c, of sample_env sample_heap]
  show ?thesis using c by auto
qed

end
