(* ===== verification/FileData.thy ===== *)
theory FileData
  imports Namespace
begin

text \<open>
  Reading and writing file data: \<open>vn_write\<close>, \<open>vn_writev\<close>, \<open>vn_read\<close> and \<open>vn_readv\<close> of
  \<open>src/src/vn_file.cpp\<close>. A call is cut into segments, one for each extent it touches; the
  loops are the source's, with their 64-bit arithmetic and every buffer access checked.
\<close>

section \<open>Writing\<close>

definition extent_key :: "int \<Rightarrow> 64 word \<Rightarrow> slice" where
  "extent_key index ino = extent_key_bytes \<lparr>extent_index = of_int index, inode_no = ino\<rparr>"

text \<open>
  The value of one segment: a cleared head with \<open>merge_off\<close> set, then the data. A segment
  that fills its extent is put, any other is merged; a failure is only logged.
\<close>

definition segment_value :: "int \<Rightarrow> slice \<Rightarrow> slice" where
  "segment_value start_off data = head_bytes (zero_head\<lparr>merge_off := of_int start_off\<rparr>) @ data"

definition write_segment ::
  "('db, 'tx) ext \<Rightarrow> 64 word \<Rightarrow> int \<Rightarrow> int \<Rightarrow> int \<Rightarrow> slice \<Rightarrow> 'tx \<Rightarrow> 'tx" where
  "write_segment E ino extent_size index start_off data tx =
     (if int (length data) \<noteq> extent_size
      then snd (Merge E tx data_cf (extent_key index ino) (segment_value start_off data))
      else snd (Put E tx data_cf (extent_key index ino) (segment_value start_off data)))"

text \<open>Where segment \<open>buf_offset\<close> starts inside its extent, and how long it is.\<close>

definition start_off_of :: "int \<Rightarrow> int \<Rightarrow> int \<Rightarrow> int" where
  "start_off_of extent_size offset buf_offset = s64 (offset + buf_offset) smod extent_size"

definition segment_len_of :: "int \<Rightarrow> int \<Rightarrow> int \<Rightarrow> int \<Rightarrow> int" where
  "segment_len_of extent_size len buf_offset start_off =
     min (u64 (len - buf_offset)) (u64 (extent_size - start_off))"

function write_extents ::
  "('db, 'tx) ext \<Rightarrow> 64 word \<Rightarrow> int \<Rightarrow> slice \<Rightarrow> int \<Rightarrow> int \<Rightarrow> int \<Rightarrow> int \<Rightarrow> int \<Rightarrow> 'tx \<Rightarrow> 'tx result" where
  "write_extents E ino extent_size in_buf len offset end_ext index buf_offset tx =
     (if index < end_ext then
        let start_off = start_off_of extent_size offset buf_offset;
            segment_len = segment_len_of extent_size len buf_offset start_off
        in if extent_size < segment_len then Inl OutOfBounds
           else bindR (load_bytes in_buf (nat buf_offset) (nat segment_len)) (\<lambda>data.
             write_extents E ino extent_size in_buf len offset end_ext (index + 1)
               (buf_offset + segment_len) (write_segment E ino extent_size index start_off data tx))
      else Inr tx)"
  by pat_completeness auto
termination
  by (relation "measure (\<lambda>(E, ino, es, b, l, off, end_ext, index, bo, tx). nat (end_ext - index))") auto

declare write_extents.simps [simp del]

text \<open>
  The end of \<open>vn_write\<close> and \<open>vn_writev\<close>: the modification time, the size when the file
  grew, the commit. A return value of type \<open>size_t\<close> carries the negated error number.
\<close>

definition finish_write ::
  "('db, 'tx) ext \<Rightarrow> sysenv \<Rightarrow> 'db ViveFsContext \<Rightarrow> inode_heap \<Rightarrow> ViveFile \<Rightarrow> ViveInode \<Rightarrow> int \<Rightarrow> int \<Rightarrow> 'tx \<Rightarrow>
   int \<times> 'db ViveFsContext \<times> inode_heap \<times> ViveFile" where
  "finish_write E env ctx h file n len offset tx =
     (let n = n\<lparr>i_mtime := now env\<rparr>;
          file = file\<lparr>dirty := True\<rparr>;
          grows = uint (i_size n) < u64 (offset + len);
          n = (if grows then n\<lparr>i_size := of_int (u64 (offset + len))\<rparr> else n);
          h = heap_set h (inode file) n
      in case (if grows then vn_persist_inode_tx E tx n else (Ok, tx)) of (s, tx) \<Rightarrow>
      if s \<noteq> Ok then (u64 (- EIO), rollback E tx ctx, h, file)
      else let file = (if grows then file\<lparr>dirty := False\<rparr> else file) in
      case Commit E tx (db ctx) of (s, d) \<Rightarrow>
      if s \<noteq> Ok then (u64 (- EIO), rollback E tx (ctx\<lparr>db := d\<rparr>), h, file)
      else (len, ctx\<lparr>db := d\<rparr>, h, file))"

definition end_ext_of :: "int \<Rightarrow> int \<Rightarrow> int \<Rightarrow> int" where
  "end_ext_of extent_size len offset = s64 (u64 (offset + len + extent_size - 1) div extent_size)"

definition vn_write ::
  "('db, 'tx) ext \<Rightarrow> sysenv \<Rightarrow> 'db ViveFsContext \<Rightarrow> inode_heap \<Rightarrow> ViveFile \<Rightarrow> slice \<Rightarrow> int \<Rightarrow> int \<Rightarrow>
   (int \<times> 'db ViveFsContext \<times> inode_heap \<times> ViveFile) result" where
  "vn_write E env ctx h file in_buf len offset =
     bindR (heap_get h (inode file)) (\<lambda>n.
       let extent_size = uint (i_extent_size n) in
       if extent_size = 0 then Inl DivByZero
       else if \<not> buf_mem env then Inr (u64 (- ENOMEM), ctx, h, file)
       else bindR (write_extents E (fi_no file) extent_size in_buf len offset
                     (end_ext_of extent_size len offset) (offset sdiv extent_size) 0
                     (BeginTransaction E (db ctx)))
              (\<lambda>tx. Inr (finish_write E env ctx h file n len offset tx)))"

section \<open>Gathering from and scattering to I/O vectors\<close>

text \<open>
  Both inner loops copy what the current element and the segment have left, then move the
  position \<open>(iov_idx, in_iov_off)\<close>, to the next element once this one is used up.
\<close>

definition iov_copy :: "slice list \<Rightarrow> nat \<Rightarrow> nat \<Rightarrow> nat \<Rightarrow> nat" where
  "iov_copy iov iov_idx in_iov_off data_remain =
     min (sz_sub (length (iov ! iov_idx)) in_iov_off) data_remain"

definition iov_advance :: "slice list \<Rightarrow> nat \<Rightarrow> nat \<Rightarrow> nat \<times> nat" where
  "iov_advance iov iov_idx in_iov_off =
     (if in_iov_off = length (iov ! iov_idx) then (iov_idx + 1, 0) else (iov_idx, in_iov_off))"

text \<open>
  The inner loop of \<open>vn_writev\<close>: copy \<open>data_remain\<close> bytes out of the vector, from element
  \<open>iov_idx\<close> at offset \<open>in_iov_off\<close>, to the end of \<open>acc\<close>.
\<close>

function gather :: "slice list \<Rightarrow> nat \<Rightarrow> nat \<Rightarrow> nat \<Rightarrow> slice \<Rightarrow> (slice \<times> nat \<times> nat) result" where
  "gather iov iov_idx in_iov_off data_remain acc =
     (if data_remain = 0 then Inr (acc, iov_idx, in_iov_off)
      else if length iov \<le> iov_idx then Inl OutOfBounds
      else let to_copy = iov_copy iov iov_idx in_iov_off data_remain;
               pos = iov_advance iov iov_idx (in_iov_off + to_copy)
           in if length (iov ! iov_idx) < in_iov_off + to_copy then Inl OutOfBounds
              else gather iov (fst pos) (snd pos) (data_remain - to_copy)
                     (acc @ take to_copy (drop in_iov_off (iov ! iov_idx))))"
  by pat_completeness auto
termination
  by (relation "measure (\<lambda>(iov, idx, off, remain, acc). remain + (length iov - idx))")
    (auto simp: iov_copy_def iov_advance_def sz_sub_def min_def split: if_splits)

declare gather.simps [simp del]

function writev_extents ::
  "('db, 'tx) ext \<Rightarrow> 64 word \<Rightarrow> int \<Rightarrow> slice list \<Rightarrow> int \<Rightarrow> int \<Rightarrow> int \<Rightarrow> int \<Rightarrow> int \<Rightarrow> nat \<Rightarrow> nat \<Rightarrow> 'tx \<Rightarrow>
   'tx result" where
  "writev_extents E ino extent_size iov len offset end_ext index buf_offset iov_idx in_iov_off tx =
     (if index < end_ext then
        let start_off = start_off_of extent_size offset buf_offset;
            segment_len = segment_len_of extent_size len buf_offset start_off
        in if \<not> 0 < segment_len then Inl AssertFailed
           else if extent_size < segment_len then Inl OutOfBounds
           else bindR (gather iov iov_idx in_iov_off (nat segment_len) []) (\<lambda>(data, iov_idx, in_iov_off).
             writev_extents E ino extent_size iov len offset end_ext (index + 1)
               (buf_offset + segment_len) iov_idx in_iov_off
               (write_segment E ino extent_size index start_off data tx))
      else Inr tx)"
  by pat_completeness auto
termination
  by (relation "measure (\<lambda>(E, ino, es, iov, l, off, end_ext, index, bo, ii, io, tx). nat (end_ext - index))") auto

declare writev_extents.simps [simp del]

definition iov_total :: "slice list \<Rightarrow> int" where
  "iov_total iov = fold (\<lambda>b len. u64 (len + int (length b))) iov 0"

text \<open>When the buffer cannot be allocated \<open>vn_writev\<close> returns \<open>-1\<close>.\<close>

definition vn_writev ::
  "('db, 'tx) ext \<Rightarrow> sysenv \<Rightarrow> 'db ViveFsContext \<Rightarrow> inode_heap \<Rightarrow> ViveFile \<Rightarrow> slice list \<Rightarrow> int \<Rightarrow>
   (int \<times> 'db ViveFsContext \<times> inode_heap \<times> ViveFile) result" where
  "vn_writev E env ctx h file in_iov offset =
     (let len = iov_total in_iov in
      bindR (heap_get h (inode file)) (\<lambda>n.
        let extent_size = uint (i_extent_size n) in
        if extent_size = 0 then Inl DivByZero
        else if \<not> buf_mem env then Inr (u64 (- 1), ctx, h, file)
        else bindR (writev_extents E (fi_no file) extent_size in_iov len offset
                      (end_ext_of extent_size len offset) (offset sdiv extent_size) 0 0 0
                      (BeginTransaction E (db ctx)))
               (\<lambda>tx. Inr (finish_write E env ctx h file n len offset tx))))"

section \<open>Reading\<close>

text \<open>
  The bytes one segment delivers: the first \<open>segment_len\<close> bytes of the stored extent when
  the lookup produced a value, zeros when it did not.
\<close>

definition read_segment :: "('db, 'tx) ext \<Rightarrow> 'db \<Rightarrow> slice \<Rightarrow> nat \<Rightarrow> slice result" where
  "read_segment E d key segment_len =
     (case Get E d data_cf key of (s, segment_data) \<Rightarrow>
      if 0 < length segment_data
      then load_bytes segment_data PFS_EXTENT_HEAD_SIZE segment_len
      else Inr (zeros segment_len))"

function read_extents ::
  "('db, 'tx) ext \<Rightarrow> 'db \<Rightarrow> 64 word \<Rightarrow> int \<Rightarrow> int \<Rightarrow> int \<Rightarrow> int \<Rightarrow> int \<Rightarrow> int \<Rightarrow> slice \<Rightarrow> slice result" where
  "read_extents E d ino extent_size len offset end_ext index buf_offset out_buf =
     (if index < end_ext then
        let start_off = start_off_of extent_size offset buf_offset;
            segment_len = segment_len_of extent_size len buf_offset start_off
        in bindR (read_segment E d (extent_key index ino) (nat segment_len)) (\<lambda>data.
           bindR (store_bytes out_buf (nat buf_offset) data) (\<lambda>out_buf.
             read_extents E d ino extent_size len offset end_ext (index + 1)
               (buf_offset + segment_len) out_buf))
      else Inr out_buf)"
  by pat_completeness auto
termination
  by (relation "measure (\<lambda>(E, d, ino, es, l, off, end_ext, index, bo, b). nat (end_ext - index))") auto

declare read_extents.simps [simp del]

text \<open>The request length is cut at the end of the file, in unsigned arithmetic.\<close>

definition read_len :: "ViveInode \<Rightarrow> int \<Rightarrow> int \<Rightarrow> int" where
  "read_len n len offset =
     (if uint (i_size n) < u64 (offset + len) then u64 (uint (i_size n) - offset) else len)"

definition finish_read :: "sysenv \<Rightarrow> inode_heap \<Rightarrow> ViveFile \<Rightarrow> ViveInode \<Rightarrow> inode_heap \<times> ViveFile" where
  "finish_read env h file n =
     (if \<not> noatime file
      then (heap_set h (inode file) (n\<lparr>i_atime := now env\<rparr>), file\<lparr>dirty := True\<rparr>)
      else (h, file))"

definition vn_read ::
  "('db, 'tx) ext \<Rightarrow> sysenv \<Rightarrow> 'db ViveFsContext \<Rightarrow> inode_heap \<Rightarrow> ViveFile \<Rightarrow> slice \<Rightarrow> int \<Rightarrow> int \<Rightarrow>
   (int \<times> slice \<times> inode_heap \<times> ViveFile) result" where
  "vn_read E env ctx h file out_buf len offset =
     bindR (heap_get h (inode file)) (\<lambda>n.
       let extent_size = uint (i_extent_size n) in
       if extent_size = 0 then Inl DivByZero
       else let end_ext = end_ext_of extent_size len offset;
                len = read_len n len offset
            in bindR (read_extents E (db ctx) (fi_no file) extent_size len offset end_ext
                        (offset sdiv extent_size) 0 out_buf)
                 (\<lambda>out_buf. Inr (len, out_buf, finish_read env h file n)))"

text \<open>The inner loops of \<open>vn_readv\<close>: copy \<open>data\<close> into the vector, element by element.\<close>

function scatter :: "slice list \<Rightarrow> nat \<Rightarrow> nat \<Rightarrow> slice \<Rightarrow> (slice list \<times> nat \<times> nat) result" where
  "scatter iov iov_idx in_iov_off data =
     (if data = [] then Inr (iov, iov_idx, in_iov_off)
      else if length iov \<le> iov_idx then Inl OutOfBounds
      else let to_copy = iov_copy iov iov_idx in_iov_off (length data);
               pos = iov_advance iov iov_idx (in_iov_off + to_copy)
           in if length (iov ! iov_idx) < in_iov_off + to_copy then Inl OutOfBounds
              else scatter (iov[iov_idx := take in_iov_off (iov ! iov_idx) @ take to_copy data @
                                           drop (in_iov_off + to_copy) (iov ! iov_idx)])
                     (fst pos) (snd pos) (drop to_copy data))"
  by pat_completeness auto
termination
  by (relation "measure (\<lambda>(iov, idx, off, data). length data + (length iov - idx))")
    (auto simp: iov_copy_def iov_advance_def sz_sub_def min_def simp flip: length_greater_0_conv
      split: if_splits)

declare scatter.simps [simp del]

function readv_extents ::
  "('db, 'tx) ext \<Rightarrow> 'db \<Rightarrow> 64 word \<Rightarrow> int \<Rightarrow> int \<Rightarrow> int \<Rightarrow> int \<Rightarrow> int \<Rightarrow> int \<Rightarrow> slice list \<Rightarrow> nat \<Rightarrow> nat \<Rightarrow>
   slice list result" where
  "readv_extents E d ino extent_size len offset end_ext index buf_offset iov iov_idx in_iov_off =
     (if index < end_ext then
        let start_off = start_off_of extent_size offset buf_offset;
            segment_len = segment_len_of extent_size len buf_offset start_off
        in bindR (read_segment E d (extent_key index ino) (nat segment_len)) (\<lambda>data.
           bindR (scatter iov iov_idx in_iov_off data) (\<lambda>(iov, iov_idx, in_iov_off).
             readv_extents E d ino extent_size len offset end_ext (index + 1)
               (buf_offset + segment_len) iov iov_idx in_iov_off))
      else Inr iov)"
  by pat_completeness auto
termination
  by (relation "measure (\<lambda>(E, d, ino, es, l, off, end_ext, index, bo, iov, ii, io). nat (end_ext - index))") auto

declare readv_extents.simps [simp del]

definition vn_readv ::
  "('db, 'tx) ext \<Rightarrow> sysenv \<Rightarrow> 'db ViveFsContext \<Rightarrow> inode_heap \<Rightarrow> ViveFile \<Rightarrow> slice list \<Rightarrow> int \<Rightarrow>
   (int \<times> slice list \<times> inode_heap \<times> ViveFile) result" where
  "vn_readv E env ctx h file out_iov offset =
     (let len = iov_total out_iov in
      bindR (heap_get h (inode file)) (\<lambda>n.
        let extent_size = uint (i_extent_size n) in
        if extent_size = 0 then Inl DivByZero
        else let end_ext = end_ext_of extent_size len offset;
                 len = read_len n len offset
             in bindR (readv_extents E (db ctx) (fi_no file) extent_size len offset end_ext
                         (offset sdiv extent_size) 0 out_iov 0 0)
                  (\<lambda>iov. Inr (len, iov, finish_read env h file n))))"

end
