(* ===== verification/FileBytes.thy ===== *)
theory FileBytes
  imports FileData
begin

text \<open>
  What reading and writing mean for the bytes of a file. The abstract content of a file is
  one byte per position, read off the history of its extents; a write overlays its data on
  that content and a read delivers it, whatever the extents in between and whatever the
  store has compacted. The vectored calls are the plain calls on the concatenated buffers.
\<close>

section \<open>Writing\<close>

text \<open>The byte at position \<open>p\<close> of a file, as the history of its extents has it.\<close>

definition ext_byte :: "hist \<Rightarrow> 64 word \<Rightarrow> int \<Rightarrow> nat \<Rightarrow> char" where
  "ext_byte H ino index i = entry_sem base_content op_act (H data_cf (extent_key index ino)) i"

definition fbyte :: "hist \<Rightarrow> 64 word \<Rightarrow> nat \<Rightarrow> char" where
  "fbyte H ino p = ext_byte H ino (int (p div VIVEFS_EXTENT_SIZE)) (p mod VIVEFS_EXTENT_SIZE)"

definition seg_wop :: "64 word \<Rightarrow> int \<Rightarrow> int \<Rightarrow> slice \<Rightarrow> wop" where
  "seg_wop ino index start_off data =
     (if length data \<noteq> VIVEFS_EXTENT_SIZE
      then WMerge data_cf (extent_key index ino) (segment_value start_off data)
      else WPut data_cf (extent_key index ino) (segment_value start_off data))"

lemma length_head_bytes [simp]: "length (head_bytes (zero_head\<lparr>merge_off := w\<rparr>)) = 16"
  by (simp add: head_bytes_def zero_head_def)

lemma length_segment_value [simp]: "length (segment_value so data) = 16 + length data"
  by (simp add: segment_value_def)

lemma op_data_segment [simp]: "op_data (segment_value so data) = data"
  by (simp add: op_data_def segment_value_def PFS_EXTENT_HEAD_SIZE_def)

lemma op_off_segment [simp]:
  assumes "0 \<le> so" and "so < 65536"
  shows "op_off (segment_value so data) = nat so"
proof -
  have "take 2 (drop 2 (segment_value so data)) = word_bytes (of_int so :: 16 word)"
    by (simp add: segment_value_def head_bytes_def zero_head_def)
  moreover have "unat (of_int so :: 16 word) = nat so"
    using assms by (simp add: unat_eq_nat_uint uint_word_of_int take_bit_eq_mod)
  ultimately show ?thesis using assms by (simp add: op_off_def word_bytes_def)
qed

lemma op_wf_segment:
  "0 \<le> so \<Longrightarrow> so < 65536 \<Longrightarrow> nat so + length data \<le> VIVEFS_EXTENT_SIZE \<Longrightarrow> op_wf (segment_value so data)"
  by (simp add: op_wf_def op_end_def PFS_EXTENT_HEAD_SIZE_def)

lemma extent_key_eq:
  assumes "0 \<le> i" "i < 2 ^ 63" "0 \<le> j" "j < 2 ^ 63"
  shows "extent_key i ino = extent_key j ino' \<longleftrightarrow> i = j \<and> ino = ino'"
proof -
  have "(of_int i :: 64 word) = of_int j \<longleftrightarrow> i = j"
    using assms by (auto simp: word_of_int_eq_iff take_bit_eq_mod)
  then show ?thesis by (simp add: extent_key_def)
qed

text \<open>One segment overlays its bytes on its extent, whichever operation stores it.\<close>

lemma seg_wop_byte:
  assumes "0 \<le> so" "so < 65536" "nat so + length data \<le> VIVEFS_EXTENT_SIZE"
    and "0 \<le> index" "index < 2 ^ 63" "0 \<le> j" "j < 2 ^ 63" "i < VIVEFS_EXTENT_SIZE"
  shows "ext_byte (apply_wop (seg_wop ino index so data) H) ino' j i =
    (if ino' = ino \<and> j = index \<and> nat so \<le> i \<and> i < nat so + length data
     then data ! (i - nat so) else ext_byte H ino' j i)"
proof (cases "ino' = ino \<and> j = index")
  case False
  then have "extent_key j ino' \<noteq> extent_key index ino"
    using extent_key_eq [of j index ino' ino] assms by auto
  then show ?thesis using False by (auto simp: ext_byte_def seg_wop_def)
next
  case True
  show ?thesis
  proof (cases "length data = VIVEFS_EXTENT_SIZE")
    case full: True
    then have "so = 0" using assms(1,3) by simp
    with full True assms(8) show ?thesis
      by (simp add: ext_byte_def seg_wop_def vive.sem_put base_content_def ext_content_def
          segment_value_def PFS_EXTENT_HEAD_SIZE_def nth_append)
  next
    case False
    with True assms(1,2) show ?thesis
      by (simp add: ext_byte_def seg_wop_def vive.sem_merge op_act_apply op_end_def)
  qed
qed

text \<open>
  A write loop visits its extents in order: at extent \<open>index\<close> the next byte to store,
  \<open>offset + buf_offset\<close>, lies in that extent unless everything is stored.
\<close>

definition at_extent :: "int \<Rightarrow> int \<Rightarrow> int \<Rightarrow> int \<Rightarrow> bool" where
  "at_extent len offset index buf_offset \<longleftrightarrow>
     0 \<le> offset \<and> offset + len < 2 ^ 63 \<and> 0 \<le> buf_offset \<and> buf_offset \<le> len \<and> 0 \<le> index \<and>
     (index * 65536 \<le> offset + buf_offset \<or> buf_offset = len) \<and>
     (offset + buf_offset < (index + 1) * 65536 \<or> buf_offset = len) \<and>
     (buf_offset = 0 \<or> offset + buf_offset = index * 65536 \<or> buf_offset = len)"

lemma at_extent_start:
  assumes "0 \<le> offset" and "0 \<le> len" and "offset + len < 2 ^ 63"
  shows "at_extent len offset (offset sdiv 65536) 0"
proof -
  have "offset sdiv 65536 = offset div 65536" using assms by (simp add: cint)
  moreover have "offset = offset div 65536 * 65536 + offset mod 65536" by simp
  moreover have "0 \<le> offset mod 65536" "offset mod 65536 < 65536" by simp_all
  moreover have "0 \<le> offset div 65536" using assms(1) by simp
  ultimately show ?thesis using assms unfolding at_extent_def by auto
qed

lemma segment_at:
  assumes "at_extent len offset index buf_offset"
  defines "so \<equiv> start_off_of 65536 offset buf_offset"
  defines "sl \<equiv> segment_len_of 65536 len buf_offset so"
  shows "so = (offset + buf_offset) mod 65536" and "0 \<le> so" and "so < 65536"
    and "sl = min (len - buf_offset) (65536 - so)" and "0 \<le> sl" and "sl \<le> len - buf_offset"
    and "so + sl \<le> 65536"
    and "buf_offset < len \<Longrightarrow> offset + buf_offset = index * 65536 + so"
    and "at_extent len offset (index + 1) (buf_offset + sl)"
proof -
  note a = assms(1) [unfolded at_extent_def]
  show so: "so = (offset + buf_offset) mod 65536"
    using a by (simp add: so_def start_off_of_def cint)
  then show so_b: "0 \<le> so" "so < 65536" by simp_all
  then show sl: "sl = min (len - buf_offset) (65536 - so)"
    using a by (simp add: sl_def segment_len_of_def cint)
  then show "0 \<le> sl" "sl \<le> len - buf_offset" "so + sl \<le> 65536" using a so_b by auto
  show pos: "offset + buf_offset = index * 65536 + so" if "buf_offset < len"
  proof -
    have "(offset + buf_offset) div 65536 = index" using a that by (intro int_div_pos_eq [of _ _ _ "offset + buf_offset - index * 65536"]) auto
    then show ?thesis using so by (metis mult.commute mult_div_mod_eq)
  qed
  show "at_extent len offset (index + 1) (buf_offset + sl)"
    using a pos sl so_b unfolding at_extent_def by (auto simp: min_def)
qed

lemma seg_fbyte:
  assumes a: "at_extent len offset index buf_offset" and l: "len \<le> int (length in_buf)"
    and p: "p < 2 ^ 63" and ix: "index < 2 ^ 63"
  defines "so \<equiv> start_off_of 65536 offset buf_offset"
  defines "sl \<equiv> segment_len_of 65536 len buf_offset so"
  shows "fbyte (apply_wop (seg_wop ino index so (take (nat sl) (drop (nat buf_offset) in_buf))) H) ino' p =
    (if ino' = ino \<and> offset + buf_offset \<le> int p \<and> int p < offset + buf_offset + sl
     then in_buf ! (p - nat offset) else fbyte H ino' p)"
proof -
  note sg = segment_at [OF a, folded so_def, folded sl_def]
  note b = a [unfolded at_extent_def]
  let ?d = "take (nat sl) (drop (nat buf_offset) in_buf)"
  have fit: "nat buf_offset + nat sl \<le> length in_buf" using sg(5,6) l b by linarith
  then have len: "length ?d = nat sl" by simp
  define j i where "j = int (p div 65536)" and "i = p mod 65536"
  have pji: "int p = j * 65536 + int i"
    unfolding j_def i_def using div_mult_mod_eq [of p 65536] by linarith
  have i: "i < 65536" and j: "0 \<le> j" "j < 2 ^ 63" using p by (auto simp: i_def j_def)
  have fb: "fbyte (apply_wop (seg_wop ino index so ?d) H) ino' p =
    (if ino' = ino \<and> j = index \<and> nat so \<le> i \<and> i < nat so + length ?d
     then ?d ! (i - nat so) else fbyte H ino' p)"
    unfolding fbyte_def extent_size j_def [symmetric] i_def [symmetric]
  proof (rule seg_wop_byte)
    show "nat so + length ?d \<le> VIVEFS_EXTENT_SIZE" unfolding len extent_size using sg(2,5,7) by linarith
    show "0 \<le> index" using b by simp
  qed (use sg(2,3) i j ix in \<open>simp_all add: extent_size\<close>)
  show ?thesis
  proof (cases "buf_offset < len")
    case True
    note pos = sg(8) [OF True]
    have iff: "j = index \<and> nat so \<le> i \<and> i < nat so + length ?d \<longleftrightarrow>
        offset + buf_offset \<le> int p \<and> int p < offset + buf_offset + sl"
    proof
      assume "j = index \<and> nat so \<le> i \<and> i < nat so + length ?d"
      then show "offset + buf_offset \<le> int p \<and> int p < offset + buf_offset + sl"
        using len sg(2,5) pji pos by auto
    next
      assume r: "offset + buf_offset \<le> int p \<and> int p < offset + buf_offset + sl"
      then have "j = index" using pji pos i sg(2,7) by linarith
      then show "j = index \<and> nat so \<le> i \<and> i < nat so + length ?d"
        using r len sg(2,5) pji pos by auto
    qed
    have "?d ! (i - nat so) = in_buf ! (p - nat offset)"
      if "j = index \<and> nat so \<le> i \<and> i < nat so + length ?d"
    proof -
      have "nat buf_offset + (i - nat so) = p - nat offset"
        using that pji pos b sg(2) by linarith
      moreover have "i - nat so < nat sl" using that unfolding len by linarith
      moreover have "nat buf_offset \<le> length in_buf" using fit by linarith
      ultimately show ?thesis by (simp only: nth_take nth_drop)
    qed
    then show ?thesis unfolding fb using iff by auto
  next
    case False
    then have sl0: "sl = 0" using b sg(5,6) by linarith
    then have "length ?d = 0" unfolding len by simp
    with sl0 show ?thesis unfolding fb by auto
  qed
qed

lemma end_ext_bounds:
  assumes "0 \<le> offset" and "0 \<le> len" and "offset + len < 2 ^ 63"
  shows "offset + len \<le> end_ext_of 65536 len offset * 65536" and "end_ext_of 65536 len offset < 2 ^ 63"
    and "(end_ext_of 65536 len offset - 1) * 65536 < offset + len"
proof -
  have "u64 (offset + len + 65536 - 1) = offset + len + 65535" using assms by (simp add: cint)
  then have e: "end_ext_of 65536 len offset = s64 ((offset + len + 65535) div 65536)"
    by (simp add: end_ext_of_def)
  have "0 \<le> (offset + len + 65535) div 65536" "(offset + len + 65535) div 65536 < 2 ^ 63"
    using assms by auto
  then have "end_ext_of 65536 len offset = (offset + len + 65535) div 65536"
    unfolding e by (intro s64_id) auto
  then show "offset + len \<le> end_ext_of 65536 len offset * 65536" "end_ext_of 65536 len offset < 2 ^ 63"
    "(end_ext_of 65536 len offset - 1) * 65536 < offset + len"
    using assms by auto
qed

text \<open>The inode after a write, and that only the data column family decides file bytes.\<close>

definition written_inode :: "sysenv \<Rightarrow> ViveInode \<Rightarrow> int \<Rightarrow> int \<Rightarrow> ViveInode" where
  "written_inode env n len offset =
     n\<lparr>i_mtime := now env,
       i_size := (if uint (i_size n) < offset + len then of_int (offset + len) else i_size n)\<rparr>"

lemma fbyte_cong: "H data_cf = H' data_cf \<Longrightarrow> fbyte H = fbyte H'"
  by (simp add: fun_eq_iff fbyte_def ext_byte_def)

text \<open>The operations that the write loop issues, as a function of the request.\<close>

function write_ops :: "64 word \<Rightarrow> slice \<Rightarrow> int \<Rightarrow> int \<Rightarrow> int \<Rightarrow> int \<Rightarrow> int \<Rightarrow> wop list" where
  "write_ops ino in_buf len offset end_ext index buf_offset =
     (if index < end_ext then
        let start_off = start_off_of 65536 offset buf_offset;
            segment_len = segment_len_of 65536 len buf_offset start_off
        in seg_wop ino index start_off (take (nat segment_len) (drop (nat buf_offset) in_buf)) #
           write_ops ino in_buf len offset end_ext (index + 1) (buf_offset + segment_len)
      else [])"
  by pat_completeness auto
termination
  by (relation "measure (\<lambda>(ino, b, l, off, end_ext, index, bo). nat (end_ext - index))") auto

declare write_ops.simps [simp del]

lemma write_ops_done [simp]: "end_ext \<le> index \<Longrightarrow> write_ops ino in_buf len offset end_ext index buf_offset = []"
  by (simp add: write_ops.simps)

text \<open>Induction along the loop: the state moves from one extent to the next.\<close>

lemma extent_loop_induct [consumes 1, case_names fin step]:
  assumes "at_extent len offset index buf_offset"
    and "\<And>index buf_offset. at_extent len offset index buf_offset \<Longrightarrow> end_ext \<le> index \<Longrightarrow> P index buf_offset"
    and "\<And>index buf_offset so sl. at_extent len offset index buf_offset \<Longrightarrow> index < end_ext \<Longrightarrow>
      so = start_off_of 65536 offset buf_offset \<Longrightarrow> sl = segment_len_of 65536 len buf_offset so \<Longrightarrow>
      P (index + 1) (buf_offset + sl) \<Longrightarrow> P index buf_offset"
  shows "P index buf_offset"
  using assms(1)
proof (induction "nat (end_ext - index)" arbitrary: index buf_offset)
  case 0
  then show ?case by (intro assms(2)) simp_all
next
  case (Suc m)
  have "m = nat (end_ext - (index + 1))" using Suc.hyps(2) by linarith
  from Suc.hyps(1) [OF this segment_at(9) [OF Suc.prems]]
  show ?case by (intro assms(3) [OF Suc.prems _ refl refl]) (use Suc.hyps(2) in linarith)
qed

lemma write_ops_step:
  assumes "index < end_ext" and "so = start_off_of 65536 offset buf_offset"
    and "sl = segment_len_of 65536 len buf_offset so"
  shows "write_ops ino in_buf len offset end_ext index buf_offset =
    seg_wop ino index so (take (nat sl) (drop (nat buf_offset) in_buf)) #
    write_ops ino in_buf len offset end_ext (index + 1) (buf_offset + sl)"
  by (subst write_ops.simps) (simp only: Let_def assms if_True)

lemma write_ops_keys:
  "w \<in> set (write_ops ino in_buf len offset end_ext index buf_offset) \<Longrightarrow>
    wop_cf w = data_cf \<and> (\<exists>i. wop_key w = extent_key i ino)"
  by (induction ino in_buf len offset end_ext index buf_offset rule: write_ops.induct)
    (subst (asm) (2) write_ops.simps, auto simp: Let_def seg_wop_def split: if_splits)

lemma write_ops_fbyte:
  assumes "at_extent len offset index buf_offset" and l: "len \<le> int (length in_buf)"
    and e: "offset + len \<le> end_ext * 65536" "end_ext < 2 ^ 63" and p: "p < 2 ^ 63"
  shows "fbyte (apply_batch (write_ops ino in_buf len offset end_ext index buf_offset) H) ino' p =
    (if ino' = ino \<and> offset + buf_offset \<le> int p \<and> int p < offset + len
     then in_buf ! (p - nat offset) else fbyte H ino' p)"
  using assms(1)
proof (induction index buf_offset arbitrary: H rule: extent_loop_induct [where end_ext = end_ext])
  case (fin index buf_offset)
  then have "buf_offset = len" using e(1) by (auto simp: at_extent_def)
  then show ?case using fin(2) by auto
next
  case (step index buf_offset so sl)
  have ix: "index < 2 ^ 63" using step(2) e(2) by linarith
  note sg = segment_at [OF step(1), folded step(3), folded step(4)]
  note seg = seg_fbyte [OF step(1) l p ix, of ino _ ino', folded step(3), folded step(4)]
  have "offset + (buf_offset + sl) \<le> int p \<and> int p < offset + len \<or>
      offset + buf_offset \<le> int p \<and> int p < offset + buf_offset + sl \<longleftrightarrow>
      offset + buf_offset \<le> int p \<and> int p < offset + len"
    using sg(5,6) by linarith
  then show ?case
    unfolding write_ops_step [OF step(2-4)] fold_simps step.IH seg by argo
qed

lemma write_loop_exit:
  assumes "at_extent len offset index buf_offset" and "buf_offset < len"
    and "(end_ext - 1) * 65536 < offset + len"
    and "so = start_off_of 65536 offset buf_offset" "sl = segment_len_of 65536 len buf_offset so"
  shows "buf_offset + sl < len \<or> end_ext \<le> index + 1"
proof (rule disjCI)
  note sg = segment_at [OF assms(1), folded assms(4), folded assms(5)]
  assume "\<not> end_ext \<le> index + 1"
  then have "(index + 1) * 65536 \<le> (end_ext - 1) * 65536" by simp
  then have "index * 65536 + 65536 < offset + len" using assms(3) by (simp add: algebra_simps)
  then show "buf_offset + sl < len" using sg(7) sg(8) [OF assms(2)] by linarith
qed

text \<open>
  Pending operands stay joined when each segment touches the last operand of its extent.
\<close>

definition joins_at :: "hist \<Rightarrow> 64 word \<Rightarrow> int \<Rightarrow> int \<Rightarrow> int \<Rightarrow> bool" where
  "joins_at H ino len offset idx \<longleftrightarrow>
     (let xs = operands (H data_cf (extent_key idx ino)) in
      xs = [] \<or> int (op_off (last xs)) \<le> min (offset + len - idx * 65536) 65536 \<and>
                max (offset - idx * 65536) 0 \<le> int (op_end (last xs)))"

definition write_joins :: "hist \<Rightarrow> 64 word \<Rightarrow> int \<Rightarrow> int \<Rightarrow> bool" where
  "write_joins H ino len offset \<longleftrightarrow>
     (\<forall>idx. 0 \<le> idx \<and> idx < 2 ^ 63 \<longrightarrow> joins_at H ino len offset idx)"

definition extents_ok :: "hist \<Rightarrow> 64 word \<Rightarrow> bool" where
  "extents_ok H ino \<longleftrightarrow> (\<forall>i. entry_ok base_wf op_wf op_touch (H data_cf (extent_key i ino)))"

lemma seg_wop_ok:
  assumes "entry_ok base_wf op_wf op_touch (H data_cf (extent_key index ino))"
    and "0 \<le> so" "so < 65536" "nat so + length data \<le> VIVEFS_EXTENT_SIZE"
    and "operands (H data_cf (extent_key index ino)) = [] \<or>
      int (op_off (last (operands (H data_cf (extent_key index ino))))) \<le> so + int (length data) \<and>
      so \<le> int (op_end (last (operands (H data_cf (extent_key index ino)))))"
  shows "entry_ok base_wf op_wf op_touch (apply_wop (seg_wop ino index so data) H data_cf (extent_key index ino))"
proof (cases "length data = VIVEFS_EXTENT_SIZE")
  case True
  then show ?thesis
    by (simp add: seg_wop_def vive.ok_put base_wf_def PFS_EXTENT_HEAD_SIZE_def)
next
  case False
  have "operands (H data_cf (extent_key index ino)) = [] \<or>
      op_touch (last (operands (H data_cf (extent_key index ino)))) (segment_value so data)"
    using assms(2,3,5) by (auto simp: op_touch_def op_end_def [of "segment_value so data"])
  then show ?thesis
    using False assms(1) op_wf_segment [OF assms(2-4)] by (auto simp: seg_wop_def intro: vive.ok_merge)
qed

lemma extents_ok_write:
  assumes "at_extent len offset index buf_offset" and l: "len \<le> int (length in_buf)"
    and e: "(end_ext - 1) * 65536 < offset + len" "end_ext < 2 ^ 63"
    and "buf_offset < len \<or> end_ext \<le> index"
    and "extents_ok H ino"
    and "\<And>idx. index \<le> idx \<Longrightarrow> idx < 2 ^ 63 \<Longrightarrow> joins_at H ino len offset idx"
  shows "extents_ok (apply_batch (write_ops ino in_buf len offset end_ext index buf_offset) H) ino"
  using assms(1,5-7)
proof (induction index buf_offset arbitrary: H rule: extent_loop_induct [where end_ext = end_ext])
  case (fin index buf_offset)
  then show ?case by simp
next
  case (step index buf_offset so sl)
  note sg = segment_at [OF step(1), folded step(3), folded step(4)] and b = step(1) [unfolded at_extent_def]
  let ?d = "take (nat sl) (drop (nat buf_offset) in_buf)"
  let ?w = "seg_wop ino index so ?d"
  have bl: "buf_offset < len" using step(2,6) by simp
  have fit: "nat buf_offset + nat sl \<le> length in_buf" using sg(5,6) l b by linarith
  then have len: "length ?d = nat sl" by simp
  have ix: "index < 2 ^ 63" using step(2) e(2) by linarith
  have so: "so = max (offset - index * 65536) 0" and hi: "so + sl = min (offset + len - index * 65536) 65536"
    using sg(2,3,4) sg(8) [OF bl] b bl by auto
  have "joins_at H ino len offset index" using step(8) ix by simp
  then have jn: "operands (H data_cf (extent_key index ino)) = [] \<or>
      int (op_off (last (operands (H data_cf (extent_key index ino))))) \<le> so + sl \<and>
      so \<le> int (op_end (last (operands (H data_cf (extent_key index ino)))))"
    unfolding joins_at_def Let_def so hi [unfolded so] .
  have ok: "entry_ok base_wf op_wf op_touch (apply_wop ?w H data_cf (extent_key index ino))"
  proof (rule seg_wop_ok)
    show "nat so + length ?d \<le> VIVEFS_EXTENT_SIZE" unfolding len extent_size using sg(2,5,7) by linarith
    have "int (length ?d) = sl" unfolding len using sg(5) by simp
    then show "operands (H data_cf (extent_key index ino)) = [] \<or>
      int (op_off (last (operands (H data_cf (extent_key index ino))))) \<le> so + int (length ?d) \<and>
      so \<le> int (op_end (last (operands (H data_cf (extent_key index ino)))))" using jn by simp
  qed (use step(7) sg(2,3) in \<open>simp_all add: extents_ok_def\<close>)
  have "extents_ok (apply_wop ?w H) ino"
    unfolding extents_ok_def
  proof
    fix i
    show "entry_ok base_wf op_wf op_touch (apply_wop ?w H data_cf (extent_key i ino))"
      using ok step(7) by (cases "extent_key i ino = extent_key index ino") (auto simp: extents_ok_def seg_wop_def)
  qed
  moreover have "joins_at (apply_wop ?w H) ino len offset idx" if "index + 1 \<le> idx" "idx < 2 ^ 63" for idx
  proof -
    have "extent_key idx ino \<noteq> extent_key index ino"
      using extent_key_eq [of idx index ino ino] that b ix by auto
    then show ?thesis using step(8) [of idx] that by (auto simp: joins_at_def seg_wop_def)
  qed
  moreover have "buf_offset + sl < len \<or> end_ext \<le> index + 1"
    by (rule write_loop_exit [OF step(1) bl e(1) step(3,4)])
  ultimately show ?case
    unfolding write_ops_step [OF step(2-4)] fold_simps by (intro step.IH) auto
qed

text \<open>The whole request: its operations, and what they do to bytes and pending operands.\<close>

definition write_batch :: "64 word \<Rightarrow> slice \<Rightarrow> int \<Rightarrow> int \<Rightarrow> wop list" where
  "write_batch ino in_buf len offset =
     write_ops ino in_buf len offset (end_ext_of 65536 len offset) (offset sdiv 65536) 0"

lemma write_batch_fbyte:
  assumes "0 \<le> offset" "0 \<le> len" "offset + len < 2 ^ 63" "len \<le> int (length in_buf)" "p < 2 ^ 63"
  shows "fbyte (apply_batch (write_batch ino in_buf len offset) H) ino' p =
    (if ino' = ino \<and> offset \<le> int p \<and> int p < offset + len
     then in_buf ! (p - nat offset) else fbyte H ino' p)"
  unfolding write_batch_def
  using write_ops_fbyte [OF at_extent_start [OF assms(1-3)] assms(4) end_ext_bounds(1,2) [OF assms(1-3)] assms(5)]
  by simp

lemma write_batch_ok:
  assumes "0 \<le> offset" "0 < len" "offset + len < 2 ^ 63" "len \<le> int (length in_buf)"
    and "extents_ok H ino" "write_joins H ino len offset"
  shows "extents_ok (apply_batch (write_batch ino in_buf len offset) H) ino"
  unfolding write_batch_def
proof (rule extents_ok_write)
  have l: "0 \<le> len" using assms(2) by simp
  show "at_extent len offset (offset sdiv 65536) 0" by (rule at_extent_start [OF assms(1) l assms(3)])
  then have "0 \<le> offset sdiv 65536" by (simp add: at_extent_def)
  then show "joins_at H ino len offset idx" if "offset sdiv 65536 \<le> idx" "idx < 2 ^ 63" for idx
    using assms(6) that by (simp add: write_joins_def)
  show "(end_ext_of 65536 len offset - 1) * 65536 < offset + len" "end_ext_of 65536 len offset < 2 ^ 63"
    by (rule end_ext_bounds [OF assms(1) l assms(3)])+
qed (use assms in auto)

context rocksdb
begin

text \<open>
  The loop on any store: \<open>g\<close> says what one segment adds to the transaction, the segment's
  operation when it is accepted, nothing when its failure is swallowed.
\<close>

lemma write_extents_steps:
  assumes "at_extent len offset index buf_offset" and l: "len \<le> int (length in_buf)"
    and g: "\<And>index so data tx. batch (write_segment E ino 65536 index so data tx) = batch tx @ g (seg_wop ino index so data)"
  shows "\<exists>tx'. write_extents E ino 65536 in_buf len offset end_ext index buf_offset tx = Inr tx' \<and>
    batch tx' = batch tx @ concat (map g (write_ops ino in_buf len offset end_ext index buf_offset))"
  using assms(1)
proof (induction index buf_offset arbitrary: tx rule: extent_loop_induct [where end_ext = end_ext])
  case (fin index buf_offset)
  then show ?case by (subst write_extents.simps) simp
next
  case (step index buf_offset so sl)
  note sg = segment_at [OF step(1), folded step(3), folded step(4)] and b = step(1) [unfolded at_extent_def]
  have "nat buf_offset + nat sl \<le> length in_buf" using sg(5,6) l b by linarith
  then have ld: "load_bytes in_buf (nat buf_offset) (nat sl) = Inr (take (nat sl) (drop (nat buf_offset) in_buf))"
    by (simp add: load_bytes_def)
  let ?tx = "write_segment E ino 65536 index so (take (nat sl) (drop (nat buf_offset) in_buf)) tx"
  have "\<not> 65536 < sl" using sg(2,7) by linarith
  then have "write_extents E ino 65536 in_buf len offset end_ext index buf_offset tx =
      write_extents E ino 65536 in_buf len offset end_ext (index + 1) (buf_offset + sl) ?tx"
    by (subst write_extents.simps)
      (simp only: Let_def step(2) if_True if_False ld bindR_simps flip: step(3) step(4))
  then show ?case
    using step.IH [of ?tx] by (simp add: write_ops_step [OF step(2-4)] g)
qed

lemma finish_write_steps:
  fixes env :: sysenv and n :: ViveInode
  assumes "batch tx = ws" and "\<forall>w\<in>set ws. wop_cf w = data_cf" and b: "0 \<le> offset" "0 \<le> len" "offset + len < 2 ^ 63"
    and put: "\<And>t k v. fst (Put E t meta_cf k v) = Ok" and com: "\<And>t d. fst (Commit E t d) = Ok"
  defines "n' \<equiv> written_inode env n len offset"
  shows "\<exists>d. finish_write E env ctx h file n len offset tx =
      (len, ctx\<lparr>db := d\<rparr>, heap_set h (inode file) n', file\<lparr>dirty := \<not> uint (i_size n) < offset + len\<rparr>) \<and>
      hist d data_cf = apply_batch ws (hist (db ctx)) data_cf \<and> hist d default_cf = hist (db ctx) default_cf \<and>
      hist d meta_cf = (if uint (i_size n) < offset + len
        then (hist (db ctx) meta_cf)(inode_key (i_no n) := entry_put (inode_bytes n')) else hist (db ctx) meta_cf)"
proof -
  have u: "u64 (offset + len) = offset + len" using b by (simp add: cint)
  have other: "c \<noteq> data_cf \<Longrightarrow> apply_batch ws H c = H c" for H c
    using assms(2) apply_batch_other [of ws c _ H] by (auto simp: fun_eq_iff)
  show ?thesis
  proof (cases "uint (i_size n) < offset + len")
    case True
    obtain s2 t2 where t2: "Put E tx meta_cf (inode_key (i_no n)) (inode_bytes n') = (s2, t2)" by force
    obtain s3 d where d: "Commit E t2 (db ctx) = (s3, d)" by force
    have s: "s2 = Ok" "s3 = Ok" using put [of tx "inode_key (i_no n)" "inode_bytes n'"] com [of t2 "db ctx"] t2 d by simp_all
    show ?thesis
      using True t2 d s put_batch [OF t2] commit_hist [OF d] other assms(1)
      by (intro exI [of _ d]) (simp add: finish_write_def Let_def u vn_persist_inode_tx_def n'_def written_inode_def)
  next
    case False
    obtain s3 d where d: "Commit E tx (db ctx) = (s3, d)" by force
    have "s3 = Ok" using com [of tx "db ctx"] d by simp
    then show ?thesis
      using False assms(1) d commit_hist [OF d] other
      by (intro exI [of _ d]) (simp add: finish_write_def Let_def u n'_def written_inode_def)
  qed
qed

lemma write_steps:
  fixes env :: sysenv and n :: ViveInode
  assumes n: "heap_get h (inode file) = Inr n" "i_extent_size n = of_nat VIVEFS_EXTENT_SIZE"
    and "buf_mem env" and b: "0 \<le> offset" "0 \<le> len" "offset + len < 2 ^ 63" "len \<le> int (length in_buf)"
    and put: "\<And>t k v. fst (Put E t meta_cf k v) = Ok" and com: "\<And>t d. fst (Commit E t d) = Ok"
    and g: "\<And>index so data tx. batch (write_segment E (fi_no file) 65536 index so data tx) =
      batch tx @ g (seg_wop (fi_no file) index so data)"
    and gs: "\<And>w. set (g w) \<subseteq> {w}"
  defines "n' \<equiv> written_inode env n len offset"
  shows "\<exists>d. vn_write E env ctx h file in_buf len offset =
      Inr (len, ctx\<lparr>db := d\<rparr>, heap_set h (inode file) n', file\<lparr>dirty := \<not> uint (i_size n) < offset + len\<rparr>) \<and>
      hist d data_cf = apply_batch (concat (map g (write_batch (fi_no file) in_buf len offset))) (hist (db ctx)) data_cf \<and>
      hist d default_cf = hist (db ctx) default_cf \<and>
      hist d meta_cf = (if uint (i_size n) < offset + len
        then (hist (db ctx) meta_cf)(inode_key (i_no n) := entry_put (inode_bytes n')) else hist (db ctx) meta_cf)"
proof -
  have es: "uint (i_extent_size n) = 65536" by (simp add: n(2) extent_size)
  define ws where "ws = concat (map g (write_batch (fi_no file) in_buf len offset))"
  from write_extents_steps [OF at_extent_start [OF b(1-3)] b(4) g, of _ "BeginTransaction E (db ctx)"]
  obtain tx where w: "write_extents E (fi_no file) 65536 in_buf len offset (end_ext_of 65536 len offset)
      (offset sdiv 65536) 0 (BeginTransaction E (db ctx)) = Inr tx" "batch tx = ws"
    unfolding ws_def write_batch_def begin_empty append_Nil by blast
  have "wop_cf w = data_cf" if "w \<in> set ws" for w
    using that gs write_ops_keys unfolding ws_def write_batch_def set_concat set_map by blast
  then have "\<forall>w\<in>set ws. wop_cf w = data_cf" by blast
  from finish_write_steps [OF w(2) this b(1-3) put com, of env ctx h "file" n] show ?thesis
    using n(1) assms(3) w(1) unfolding n'_def ws_def by (auto simp add: vn_write_def es)
qed

end

context rocksdb_reliable
begin

lemma write_segment_batch:
  "batch (write_segment E ino 65536 index so data tx) = batch tx @ [seg_wop ino index so data]"
  using merge_ok [of tx data_cf "extent_key index ino" "segment_value so data"]
    put_ok [of tx data_cf "extent_key index ino" "segment_value so data"]
  by (auto simp: write_segment_def seg_wop_def extent_size)

lemma write_run:
  assumes "heap_get h (inode file) = Inr n" "i_extent_size n = of_nat VIVEFS_EXTENT_SIZE" "buf_mem env"
    and "0 \<le> offset" "0 \<le> len" "offset + len < 2 ^ 63" "len \<le> int (length in_buf)"
  shows "\<exists>d. vn_write E env ctx h file in_buf len offset =
      Inr (len, ctx\<lparr>db := d\<rparr>, heap_set h (inode file) (written_inode env n len offset),
        file\<lparr>dirty := \<not> uint (i_size n) < offset + len\<rparr>) \<and>
      hist d data_cf = apply_batch (write_batch (fi_no file) in_buf len offset) (hist (db ctx)) data_cf \<and>
      hist d default_cf = hist (db ctx) default_cf \<and>
      hist d meta_cf = (if uint (i_size n) < offset + len
        then (hist (db ctx) meta_cf)(inode_key (i_no n) := entry_put (inode_bytes (written_inode env n len offset)))
        else hist (db ctx) meta_cf)"
  using write_steps [OF assms put_succeeds commit_succeeds, of "\<lambda>w. [w]" ctx] write_segment_batch by simp

end

section \<open>Reading\<close>

text \<open>
  Where the byte delivered at position \<open>j\<close> of the buffer comes from: the loop copies every
  extent from its beginning, also the first one, so an unaligned request is shifted.
\<close>

definition read_pos :: "int \<Rightarrow> int \<Rightarrow> int" where
  "read_pos offset j =
     (if j < 65536 - offset mod 65536 then offset div 65536 * 65536 + j else offset + j)"

lemma read_pos_aligned: "offset mod 65536 = 0 \<Longrightarrow> read_pos offset j = offset + j"
  using div_mult_mod_eq [of offset 65536] by (simp add: read_pos_def)

lemma read_pos_segment:
  assumes a: "at_extent len offset index buf_offset" and l: "buf_offset < len"
    and k: "0 \<le> k" "k < segment_len_of 65536 len buf_offset (start_off_of 65536 offset buf_offset)"
  shows "read_pos offset (buf_offset + k) = index * 65536 + k"
proof -
  note sg = segment_at [OF a] and b = a [unfolded at_extent_def]
  define q r where "q = offset div 65536" and "r = offset mod 65536"
  have qr: "offset = q * 65536 + r" "0 \<le> r" "r < 65536" by (simp_all add: q_def r_def)
  note pos = sg(8) [OF l]
  show ?thesis
  proof (cases "buf_offset = 0")
    case True
    then have "q = index" using pos qr sg(2,3) by linarith
    moreover have "k < 65536 - r" using True k sg(1,7) by (simp add: r_def)
    ultimately show ?thesis using True by (simp add: read_pos_def q_def r_def)
  next
    case False
    then have so: "start_off_of 65536 offset buf_offset = 0" using b l pos by auto
    then have "q < index" using pos qr b False by linarith
    then have "\<not> buf_offset + k < 65536 - r" using pos qr k(1) so by linarith
    then show ?thesis using pos so by (simp add: read_pos_def r_def)
  qed
qed

context rocksdb_reliable
begin

lemma read_segment_run:
  assumes "extents_ok (hist d) ino" and "sl \<le> VIVEFS_EXTENT_SIZE"
  shows "read_segment E d (extent_key index ino) sl = Inr (map (ext_byte (hist d) ino index) [0..<sl])"
proof -
  let ?k = "extent_key index ino"
  let ?e = "hist d data_cf ?k"
  have ok: "entry_ok base_wf op_wf op_touch ?e" using assms(1) by (simp add: extents_ok_def)
  then have sound: "entry_sound ?e" by (simp add: entry_sound_def)
  show ?thesis
  proof (cases "?e = entry_delete")
    case True
    then have "ext_byte (hist d) ino index = (\<lambda>_. CHR 0x00)"
      by (simp add: fun_eq_iff ext_byte_def vive.sem_delete base_content_def)
    then show ?thesis
      using get_deleted [OF True] by (simp add: read_segment_def zeros_def map_replicate_const)
  next
    case False
    then obtain v where g: "Get E d data_cf ?k = (Ok, v)"
      using get_status [OF sound] by (cases "Get E d data_cf ?k") auto
    from get_ok [OF g] obtain e' where
      "compacts full_merge_of partial_merge_of ?e e'" "entry_get full_merge_of e' = Inr (Some v)"
      by (auto simp: entry_reads_def)
    from vive.get_compacted [OF this(1) ok this(2)]
    have len: "length v = VIVEFS_EXTENT_SIZE + PFS_EXTENT_HEAD_SIZE"
      and c: "ext_content v = ext_byte (hist d) ino index"
      by (auto simp: base_wf_def base_content_def ext_byte_def fun_eq_iff)
    have "take sl (drop PFS_EXTENT_HEAD_SIZE v) = map (ext_byte (hist d) ino index) [0..<sl]"
      unfolding c [symmetric]
      by (rule nth_equalityI) (use assms(2) len in \<open>simp_all add: ext_content_def\<close>)
    moreover have "v \<noteq> []" using len by (auto simp: extent_size)
    ultimately show ?thesis
      using g len assms(2) by (simp add: read_segment_def load_bytes_def)
  qed
qed

lemma read_extents_run:
  assumes "at_extent len offset index buf_offset" and "len \<le> int (length out_buf)"
    and e: "offset + len \<le> end_ext * 65536" and ok: "extents_ok (hist d) ino"
  shows "\<exists>out'. read_extents E d ino 65536 len offset end_ext index buf_offset out_buf = Inr out' \<and>
    length out' = length out_buf \<and>
    (\<forall>j < length out_buf. out' ! j = (if buf_offset \<le> int j \<and> int j < len
       then fbyte (hist d) ino (nat (read_pos offset (int j))) else out_buf ! j))"
  using assms(1,2)
proof (induction index buf_offset arbitrary: out_buf rule: extent_loop_induct [where end_ext = end_ext])
  case (fin index buf_offset)
  then have "buf_offset = len" using e by (auto simp: at_extent_def)
  with fin show ?case by (subst read_extents.simps) auto
next
  case (step index buf_offset so sl)
  note sg = segment_at [OF step(1), folded step(3), folded step(4)] and b = step(1) [unfolded at_extent_def]
  let ?d = "map (ext_byte (hist d) ino index) [0..<nat sl]"
  have "nat sl \<le> VIVEFS_EXTENT_SIZE" unfolding extent_size using sg(2,7) by linarith
  from read_segment_run [OF ok this, of index]
  have rs: "read_segment E d (extent_key index ino) (nat sl) = Inr ?d" .
  have "nat buf_offset + nat sl \<le> length out_buf" using sg(5,6) step(6) b by linarith
  then have fit: "nat buf_offset + length ?d \<le> length out_buf" by simp
  obtain out1 where st: "store_bytes out_buf (nat buf_offset) ?d = Inr out1"
    and len1: "length out1 = length out_buf"
    and nth1: "\<And>i. i < length out_buf \<Longrightarrow> out1 ! i = (if nat buf_offset \<le> i \<and> i < nat buf_offset + length ?d
        then ?d ! (i - nat buf_offset) else out_buf ! i)"
    using store_bytes_exists [OF fit] by metis
  obtain out' where ih: "read_extents E d ino 65536 len offset end_ext (index + 1) (buf_offset + sl) out1 = Inr out'"
    "length out' = length out1"
    and nth': "\<And>j. j < length out1 \<Longrightarrow> out' ! j = (if buf_offset + sl \<le> int j \<and> int j < len
       then fbyte (hist d) ino (nat (read_pos offset (int j))) else out1 ! j)"
    using step.IH [of out1] step(6) unfolding len1 by blast
  have run: "read_extents E d ino 65536 len offset end_ext index buf_offset out_buf = Inr out'"
    by (subst read_extents.simps) (simp only: Let_def step(2) if_True rs st bindR_simps ih(1) flip: step(3) step(4))
  have "out' ! j = (if buf_offset \<le> int j \<and> int j < len
       then fbyte (hist d) ino (nat (read_pos offset (int j))) else out_buf ! j)" if j: "j < length out_buf" for j
  proof (cases "buf_offset \<le> int j \<and> int j < buf_offset + sl")
    case True
    define k where "k = int j - buf_offset"
    have k: "0 \<le> k" "k < sl" "int j = buf_offset + k" using True by (auto simp: k_def)
    have bl: "buf_offset < len" using k sg(6) by linarith
    have rp: "read_pos offset (int j) = index * 65536 + k"
      unfolding k(3) by (rule read_pos_segment [OF step(1) bl k(1)]) (use k(2) step(3,4) in simp)
    have k6: "k < 65536" using k(2) sg(2,7) by linarith
    have "nat (read_pos offset (int j)) div 65536 = nat index" "nat (read_pos offset (int j)) mod 65536 = nat k"
      unfolding rp using k(1) k6 b by (simp_all add: nat_add_distrib nat_mult_distrib)
    then have "fbyte (hist d) ino (nat (read_pos offset (int j))) = ext_byte (hist d) ino index (nat k)"
      using b by (simp add: fbyte_def extent_size)
    moreover have "nat buf_offset \<le> j" "j < nat buf_offset + nat sl" using k b by linarith+
    then have "out' ! j = ?d ! (j - nat buf_offset)"
      using nth' [of j] nth1 [OF j] j len1 True by simp
    moreover have "j - nat buf_offset = nat k" "nat k < nat sl" using k b by linarith+
    ultimately show ?thesis using True sg(6) by simp
  next
    case False
    then have "out1 ! j = out_buf ! j" using nth1 [OF j] b sg(5) by auto
    then show ?thesis using nth' [of j] j len1 False sg(5,6) by auto
  qed
  with run ih(2) len1 show ?case by auto
qed

lemma read_run:
  assumes n: "heap_get h (inode file) = Inr n" "i_extent_size n = of_nat VIVEFS_EXTENT_SIZE"
    and ok: "extents_ok (hist (db ctx)) (fi_no file)"
    and b: "0 \<le> offset" "0 \<le> len" "offset + len < 2 ^ 63" "offset \<le> uint (i_size n)" "len \<le> int (length out_buf)"
  defines "m \<equiv> min len (uint (i_size n) - offset)"
  shows "\<exists>out'. vn_read E env ctx h file out_buf len offset = Inr (m, out', finish_read env h file n) \<and>
    length out' = length out_buf \<and>
    (\<forall>j < length out_buf. out' ! j = (if int j < m
       then fbyte (hist (db ctx)) (fi_no file) (nat (read_pos offset (int j))) else out_buf ! j))"
proof -
  have es: "uint (i_extent_size n) = 65536" by (simp add: n(2) extent_size)
  have "uint (i_size n) < 2 ^ 64" using uint_lt2p [of "i_size n"] by simp
  then have rl: "read_len n len offset = m"
    using b by (auto simp: read_len_def m_def cint)
  have m: "0 \<le> m" "m \<le> len" using b by (auto simp: m_def)
  have "offset + m < 2 ^ 63" "m \<le> int (length out_buf)" "offset + m \<le> end_ext_of 65536 len offset * 65536"
    using b m end_ext_bounds(1) [OF b(1-3)] by linarith+
  from read_extents_run [OF at_extent_start [OF b(1) m(1) this(1)] this(2,3) ok]
  show ?thesis using n(1) by (auto simp: vn_read_def es rl)
qed

end

lemma read_segment_length: "read_segment E d k sl = Inr data \<Longrightarrow> length data = sl"
  by (auto simp: read_segment_def load_bytes_def split: prod.splits if_splits)

lemma read_segment_fault: "read_segment E d k sl = Inl f \<Longrightarrow> f = OutOfBounds"
  by (auto simp: read_segment_def load_bytes_def split: prod.splits if_splits)

text \<open>Past the end of the file the length wraps around and whole extents are copied.\<close>

lemma read_overflow:
  assumes n: "heap_get h (inode file) = Inr n" "i_extent_size n = of_nat VIVEFS_EXTENT_SIZE"
    and b: "0 \<le> offset" "0 < len" "offset + len < 2 ^ 63" "uint (i_size n) < offset"
    and short: "int (length out_buf) < 65536 - offset mod 65536"
  shows "vn_read E env ctx h file out_buf len offset = Inl OutOfBounds"
proof -
  have es: "uint (i_extent_size n) = 65536" by (simp add: n(2) extent_size)
  have len: "0 \<le> len" using b(2) by simp
  let ?l = "u64 (uint (i_size n) - offset)"
  have rl: "read_len n len offset = ?l" using b by (simp add: read_len_def cint)
  have "65536 \<le> u64 (z - offset) \<and> u64 (z - offset) < 2 ^ 64" if "0 \<le> z" "z < offset" for z
    using that b(1-3) u64_neg [of "z - offset"] by simp
  then have big: "65536 \<le> ?l" "?l < 2 ^ 64" using b(4) by simp_all
  have so: "start_off_of 65536 offset 0 = offset mod 65536" using b by (simp add: start_off_of_def cint)
  have sl: "segment_len_of 65536 ?l 0 (offset mod 65536) = 65536 - offset mod 65536"
    using big by (simp add: segment_len_of_def cint)
  have lt: "offset sdiv 65536 < end_ext_of 65536 len offset"
  proof -
    have "offset < end_ext_of 65536 len offset * 65536"
      using end_ext_bounds(1) [OF b(1) len b(3)] b(2) by linarith
    then show ?thesis using b(1) by (simp add: cint)
  qed
  let ?k = "extent_key (offset sdiv 65536) (fi_no file)" and ?m = "nat (65536 - offset mod 65536)"
  have "length out_buf < ?m" using short by linarith
  then have "bindR (read_segment E (db ctx) ?k ?m) (\<lambda>data. bindR (store_bytes out_buf 0 data) f) = Inl OutOfBounds" for f
    by (cases "read_segment E (db ctx) ?k ?m") (auto dest: read_segment_length read_segment_fault simp: store_bytes_def)
  then have "read_extents E (db ctx) (fi_no file) 65536 ?l offset (end_ext_of 65536 len offset)
      (offset sdiv 65536) 0 out_buf = Inl OutOfBounds"
    by (subst read_extents.simps) (simp only: Let_def lt if_True so sl nat_0 nat_zero_as_int [symmetric])
  then show ?thesis using n(1) by (simp add: vn_read_def es rl)
qed

section \<open>Properties\<close>

text \<open>An open file on an empty inode, and one whose inode says it is four bytes long.\<close>

definition sample_inode_of :: "64 word \<Rightarrow> ViveInode" where
  "sample_inode_of sz = (created_inode sample_env 12 420 0 0)\<lparr>i_size := sz\<rparr>"

definition sample_heap_of :: "64 word \<Rightarrow> inode_heap" where
  "sample_heap_of sz = \<lparr>cells = [1 \<mapsto> sample_inode_of sz], next_addr = 2\<rparr>"

definition sample_file :: ViveFile where
  "sample_file = new_ViveFile\<lparr>inode := 1, fi_no := 12\<rparr>"

lemma sample_file_simps [simp]:
  "inode sample_file = 1" "fi_no sample_file = 12" "\<not> noatime sample_file"
  "heap_get (sample_heap_of sz) 1 = Inr (sample_inode_of sz)"
  "heap_get (sample_heap_of sz) (Suc 0) = Inr (sample_inode_of sz)"
  "i_extent_size (sample_inode_of sz) = of_nat VIVEFS_EXTENT_SIZE" "i_size (sample_inode_of sz) = sz"
  "i_no (sample_inode_of sz) = 12"
  by (simp_all add: sample_file_def new_ViveFile_def sample_heap_of_def heap_get_def sample_inode_of_def
      created_inode_def new_inode_def)

lemma size_written_inode:
  assumes "0 \<le> offset" "0 \<le> len" "offset + len < 2 ^ 63"
  shows "uint (i_size (written_inode env n len offset)) = max (uint (i_size n)) (offset + len)"
proof -
  have "uint (of_int x :: 64 word) = x" if "0 \<le> x" "x < 2 ^ 63" for x
    using that by (simp add: uint_word_of_int take_bit_eq_mod)
  from this [of "offset + len"] show ?thesis using assms by (simp add: written_inode_def del: of_int_add)
qed

text \<open>
  C1: \<open>vn_write\<close> refines overlaying bytes on a file. On a store that reports no failure it
  returns the length, exactly the bytes \<open>offset .. offset + len\<close> of that file become the
  bytes of the buffer, every other byte of every file keeps its value, the size becomes the
  maximum of the old size and the end of the write, and a grown inode is stored.
\<close>

theorem write_overlays_bytes:
  assumes "rocksdb_reliable E hist batch"
    and "heap_get h (inode file) = Inr n" "i_extent_size n = of_nat VIVEFS_EXTENT_SIZE" "buf_mem env"
    and "0 \<le> offset" "0 \<le> len" "offset + len < 2 ^ 63" "len \<le> int (length in_buf)"
  shows "\<exists>ctx' h' file' n'. vn_write E env ctx h file in_buf len offset = Inr (len, ctx', h', file') \<and>
    (\<forall>ino p. p < 2 ^ 63 \<longrightarrow> fbyte (hist (db ctx')) ino p =
      (if ino = fi_no file \<and> offset \<le> int p \<and> int p < offset + len
       then in_buf ! (p - nat offset) else fbyte (hist (db ctx)) ino p)) \<and>
    heap_get h' (inode file) = Inr n' \<and> uint (i_size n') = max (uint (i_size n)) (offset + len) \<and>
    (uint (i_size n) < offset + len \<longrightarrow>
      hist (db ctx') meta_cf (inode_key (i_no n)) = entry_put (inode_bytes n') \<and> \<not> dirty file')"
proof -
  from rocksdb_reliable.write_run [OF assms, of ctx] obtain d where
    w: "vn_write E env ctx h file in_buf len offset =
      Inr (len, ctx\<lparr>db := d\<rparr>, heap_set h (inode file) (written_inode env n len offset),
        file\<lparr>dirty := \<not> uint (i_size n) < offset + len\<rparr>)"
      "hist d data_cf = apply_batch (write_batch (fi_no file) in_buf len offset) (hist (db ctx)) data_cf"
      "hist d meta_cf = (if uint (i_size n) < offset + len
        then (hist (db ctx) meta_cf)(inode_key (i_no n) := entry_put (inode_bytes (written_inode env n len offset)))
        else hist (db ctx) meta_cf)" by blast
  have "fbyte (hist d) = fbyte (apply_batch (write_batch (fi_no file) in_buf len offset) (hist (db ctx)))"
    by (rule fbyte_cong) (rule w(2))
  then have "\<forall>ino p. p < 2 ^ 63 \<longrightarrow> fbyte (hist d) ino p =
      (if ino = fi_no file \<and> offset \<le> int p \<and> int p < offset + len
       then in_buf ! (p - nat offset) else fbyte (hist (db ctx)) ino p)"
    using write_batch_fbyte [OF assms(5-8)] by simp
  moreover have "inode file \<noteq> 0" using assms(2) by (simp add: heap_get_Inr)
  ultimately show ?thesis
    using w(1,3) size_written_inode [OF assms(5-7), of env n]
    by (intro exI [of _ "ctx\<lparr>db := d\<rparr>"] exI [of _ "heap_set h (inode file) (written_inode env n len offset)"]
        exI [of _ "file\<lparr>dirty := \<not> uint (i_size n) < offset + len\<rparr>"] exI [of _ "written_inode env n len offset"]) auto
qed

theorem write_overlays_bytes_witness:
  "\<exists>ctx' h' file'. vn_write (mem_ext no_faults) sample_env sample_ctx (sample_heap_of 0) sample_file ''ABCD'' 4 65534 =
     Inr (4, ctx', h', file') \<and> fbyte (mem_hist (db ctx')) 12 65535 = CHR ''B'' \<and> fbyte (mem_hist (db ctx')) 12 65536 = CHR ''C''"
proof -
  obtain ctx' h' file' where w: "vn_write (mem_ext no_faults) sample_env sample_ctx (sample_heap_of 0) sample_file ''ABCD'' 4 65534 =
     Inr (4, ctx', h', file')"
    and fb: "\<And>ino p. p < 2 ^ 63 \<Longrightarrow> fbyte (mem_hist (db ctx')) ino p =
      (if ino = 12 \<and> 65534 \<le> int p \<and> int p < 65538 then ''ABCD'' ! (p - 65534) else fbyte (mem_hist []) ino p)"
    using write_overlays_bytes [OF mem_reliable.rocksdb_reliable_axioms, of "sample_heap_of 0" sample_file "sample_inode_of 0"
        sample_env 65534 4 "''ABCD''" sample_ctx] by auto
  show ?thesis using w fb [of 65535 12] fb [of 65536 12] by auto
qed

text \<open>
  C24: writing keeps the pending operands of a file mergeable: when every segment touches
  the last pending operand of its extent, all extents stay in order, so that compaction
  remains unobservable.
\<close>

theorem write_keeps_extents_in_order:
  assumes "rocksdb_reliable E hist batch"
    and "heap_get h (inode file) = Inr n" "i_extent_size n = of_nat VIVEFS_EXTENT_SIZE" "buf_mem env"
    and "0 \<le> offset" "0 < len" "offset + len < 2 ^ 63" "len \<le> int (length in_buf)"
    and "extents_ok (hist (db ctx)) (fi_no file)" "write_joins (hist (db ctx)) (fi_no file) len offset"
  shows "\<exists>ctx' h' file'. vn_write E env ctx h file in_buf len offset = Inr (len, ctx', h', file') \<and>
    extents_ok (hist (db ctx')) (fi_no file)"
proof -
  have l: "0 \<le> len" using assms(6) by simp
  from rocksdb_reliable.write_run [OF assms(1-5) l assms(7,8), of ctx] obtain d where
    w: "vn_write E env ctx h file in_buf len offset =
      Inr (len, ctx\<lparr>db := d\<rparr>, heap_set h (inode file) (written_inode env n len offset),
        file\<lparr>dirty := \<not> uint (i_size n) < offset + len\<rparr>)"
      "hist d data_cf = apply_batch (write_batch (fi_no file) in_buf len offset) (hist (db ctx)) data_cf" by blast
  with write_batch_ok [OF assms(5-10)] show ?thesis by (auto simp: extents_ok_def)
qed

lemma empty_store_extents [simp]: "extents_ok (mem_hist []) ino" "write_joins (mem_hist []) ino len offset"
  by (simp_all add: extents_ok_def write_joins_def joins_at_def entry_ok_def entry_delete_def base_wf_def)

theorem write_keeps_extents_in_order_witness:
  "\<exists>ctx' h' file'. vn_write (mem_ext no_faults) sample_env sample_ctx (sample_heap_of 0) sample_file ''ABCD'' 4 65534 =
     Inr (4, ctx', h', file') \<and> extents_ok (mem_hist (db ctx')) 12"
  using write_keeps_extents_in_order [OF mem_reliable.rocksdb_reliable_axioms, of "sample_heap_of 0" sample_file
      "sample_inode_of 0" sample_env 65534 4 "''ABCD''" sample_ctx] by simp

text \<open>
  C23: an aligned \<open>vn_read\<close> delivers the bytes of the file. On extents in order it returns the
  requested length cut at the end of the file, fills that much of the buffer with the file's
  bytes from \<open>offset\<close> on, zeros where nothing was written, and leaves the rest of the buffer.
\<close>

theorem aligned_read_delivers:
  assumes "rocksdb_reliable E hist batch"
    and "heap_get h (inode file) = Inr n" "i_extent_size n = of_nat VIVEFS_EXTENT_SIZE"
    and "extents_ok (hist (db ctx)) (fi_no file)"
    and "0 \<le> offset" "0 \<le> len" "offset + len < 2 ^ 63" "offset \<le> uint (i_size n)" "len \<le> int (length out_buf)"
    and "offset mod 65536 = 0"
  shows "\<exists>out' st. vn_read E env ctx h file out_buf len offset =
      Inr (min len (uint (i_size n) - offset), out', st) \<and> length out' = length out_buf \<and>
    (\<forall>j < length out_buf. out' ! j = (if int j < min len (uint (i_size n) - offset)
       then fbyte (hist (db ctx)) (fi_no file) (nat offset + j) else out_buf ! j))"
proof -
  have "nat (read_pos offset (int j)) = nat offset + j" for j
    using assms(5,10) by (simp add: read_pos_aligned nat_add_distrib)
  with rocksdb_reliable.read_run [OF assms(1-9), of env] show ?thesis by auto
qed

theorem aligned_read_delivers_witness:
  "\<exists>out' st. vn_read (mem_ext no_faults) sample_env sample_ctx (sample_heap_of 4) sample_file ''xxxxxx'' 6 0 =
     Inr (4, out', st) \<and> out' ! 3 = CHR 0x00 \<and> out' ! 4 = CHR ''x''"
proof -
  have z: "fbyte (mem_hist []) ino p = CHR 0x00" for ino p
    by (simp add: fbyte_def ext_byte_def vive.sem_delete base_content_def)
  obtain out' st where r: "vn_read (mem_ext no_faults) sample_env sample_ctx (sample_heap_of 4) sample_file ''xxxxxx'' 6 0 =
      Inr (4, out', st)" "length out' = 6"
    and nth: "\<And>j. j < 6 \<Longrightarrow> out' ! j = (if j < 4 then CHR 0x00 else ''xxxxxx'' ! j)"
    using aligned_read_delivers [OF mem_reliable.rocksdb_reliable_axioms, of "sample_heap_of 4" sample_file "sample_inode_of 4"
        sample_ctx 0 6 "''xxxxxx''" sample_env] by (auto simp: z)
  show ?thesis using r(1) nth [of 3] nth [of 4] by auto
qed

text \<open>
  C3: reading back what was written. An aligned write followed by an aligned read of the same
  range through the same file returns the length and the written bytes.
\<close>

theorem write_read_roundtrip:
  assumes "rocksdb_reliable E hist batch"
    and "heap_get h (inode file) = Inr n" "i_extent_size n = of_nat VIVEFS_EXTENT_SIZE" "buf_mem env"
    and "0 \<le> offset" "0 < len" "offset + len < 2 ^ 63" "len = int (length in_buf)" "offset mod 65536 = 0"
    and "extents_ok (hist (db ctx)) (fi_no file)" "write_joins (hist (db ctx)) (fi_no file) len offset"
    and "length out_buf = length in_buf"
  shows "\<exists>ctx' h' file' st. vn_write E env ctx h file in_buf len offset = Inr (len, ctx', h', file') \<and>
    vn_read E env' ctx' h' file' out_buf len offset = Inr (len, in_buf, st)"
proof -
  let ?n = "written_inode env n len offset" and ?f = "file\<lparr>dirty := \<not> uint (i_size n) < offset + len\<rparr>"
  let ?h = "heap_set h (inode file) ?n"
  have l: "0 \<le> len" "len \<le> int (length in_buf)" using assms(6,8) by simp_all
  from rocksdb_reliable.write_run [OF assms(1-5) l(1) assms(7) l(2), of ctx] obtain d where
    w: "vn_write E env ctx h file in_buf len offset = Inr (len, ctx\<lparr>db := d\<rparr>, ?h, ?f)"
      "hist d data_cf = apply_batch (write_batch (fi_no file) in_buf len offset) (hist (db ctx)) data_cf" by blast
  have ok: "extents_ok (hist (db (ctx\<lparr>db := d\<rparr>))) (fi_no ?f)"
    using write_batch_ok [OF assms(5-7) l(2) assms(10,11)] w(2) by (simp add: extents_ok_def)
  have fc: "fbyte (hist d) = fbyte (apply_batch (write_batch (fi_no file) in_buf len offset) (hist (db ctx)))"
    by (rule fbyte_cong) (rule w(2))
  have fb: "fbyte (hist d) (fi_no file) p = in_buf ! (p - nat offset)" if "p < 2 ^ 63" "offset \<le> int p" "int p < offset + len" for p
    using write_batch_fbyte [OF assms(5) l(1) assms(7) l(2) that(1), of "fi_no file" "hist (db ctx)" "fi_no file"] that
    by (simp add: fc)
  have g: "heap_get ?h (inode ?f) = Inr ?n" "i_extent_size ?n = of_nat VIVEFS_EXTENT_SIZE"
    using assms(2,3) by (auto simp: heap_get_Inr written_inode_def)
  have sz: "uint (i_size ?n) = max (uint (i_size n)) (offset + len)" by (rule size_written_inode [OF assms(5) l(1) assms(7)])
  have b: "offset \<le> uint (i_size ?n)" "len \<le> int (length out_buf)" "min len (uint (i_size ?n) - offset) = len"
    using sz l assms(8,12) by auto
  from rocksdb_reliable.read_run [OF assms(1) g ok assms(5) l(1) assms(7) b(1,2), of env', unfolded b(3)] obtain out' where
    r: "vn_read E env' (ctx\<lparr>db := d\<rparr>) ?h ?f out_buf len offset = Inr (len, out', finish_read env' ?h ?f ?n)"
      "length out' = length out_buf"
      "\<And>j. j < length out_buf \<Longrightarrow> out' ! j = (if int j < len then fbyte (hist d) (fi_no file) (nat (read_pos offset (int j))) else out_buf ! j)"
    by auto
  have "out' = in_buf"
  proof (rule nth_equalityI)
    show "length out' = length in_buf" using r(2) assms(12) by simp
    fix j assume "j < length out'"
    then have j: "j < length out_buf" "int j < len" using r(2) assms(8,12) by simp_all
    have "nat (read_pos offset (int j)) = nat offset + j" using assms(5,9) by (simp add: read_pos_aligned nat_add_distrib)
    then show "out' ! j = in_buf ! j" using r(3) [OF j(1)] j fb [of "nat offset + j"] assms(5,7) by simp
  qed
  with w(1) r(1) show ?thesis by (intro exI conjI) simp_all
qed

theorem write_read_roundtrip_witness:
  "\<exists>ctx' h' file' st. vn_write (mem_ext no_faults) sample_env sample_ctx (sample_heap_of 0) sample_file ''ABCD'' 4 65536 =
     Inr (4, ctx', h', file') \<and>
     vn_read (mem_ext no_faults) sample_env ctx' h' file' ''....'' 4 65536 = Inr (4, ''ABCD'', st)"
  by (rule write_read_roundtrip [OF mem_reliable.rocksdb_reliable_axioms, of "sample_heap_of 0" sample_file "sample_inode_of 0"])
    simp_all


text \<open>
  C29: an unaligned read is shifted. Whatever the offset inside the first extent, the bytes
  delivered up to the end of that extent are the bytes from the beginning of the extent on,
  not from the requested offset.
\<close>

theorem unaligned_read_shifted:
  assumes "rocksdb_reliable E hist batch"
    and "heap_get h (inode file) = Inr n" "i_extent_size n = of_nat VIVEFS_EXTENT_SIZE"
    and "extents_ok (hist (db ctx)) (fi_no file)"
    and "0 \<le> offset" "0 \<le> len" "offset + len < 2 ^ 63" "offset + len \<le> uint (i_size n)" "len \<le> int (length out_buf)"
  shows "\<exists>out' st. vn_read E env ctx h file out_buf len offset = Inr (len, out', st) \<and>
    (\<forall>j. int j < len \<and> int j < 65536 - offset mod 65536 \<longrightarrow>
       out' ! j = fbyte (hist (db ctx)) (fi_no file) (nat (offset div 65536 * 65536) + j)) \<and>
    (\<forall>j. int j < len \<and> 65536 - offset mod 65536 \<le> int j \<longrightarrow>
       out' ! j = fbyte (hist (db ctx)) (fi_no file) (nat offset + j))"
proof -
  have o: "offset \<le> uint (i_size n)" "min len (uint (i_size n) - offset) = len" using assms(6,8) by auto
  from rocksdb_reliable.read_run [OF assms(1-7) o(1) assms(9), of env, unfolded o(2)] obtain out' where
    r: "vn_read E env ctx h file out_buf len offset = Inr (len, out', finish_read env h file n)"
      "\<And>j. j < length out_buf \<Longrightarrow> out' ! j = (if int j < len
         then fbyte (hist (db ctx)) (fi_no file) (nat (read_pos offset (int j))) else out_buf ! j)" by blast
  have low: "nat (read_pos offset (int j)) = nat (offset div 65536 * 65536) + j" if "int j < 65536 - offset mod 65536" for j
    using that assms(5) by (simp add: read_pos_def nat_add_distrib)
  have high: "nat (read_pos offset (int j)) = nat offset + j" if "65536 - offset mod 65536 \<le> int j" for j
    using that assms(5) by (simp add: read_pos_def nat_add_distrib)
  have "out' ! j = fbyte (hist (db ctx)) (fi_no file) (nat (read_pos offset (int j)))" if "int j < len" for j
    using r(2) [of j] that assms(9) by simp
  then show ?thesis using r(1) low high by auto
qed

definition sample_ctx_data :: "memdb ViveFsContext" where
  "sample_ctx_data = sample_ctx\<lparr>db := [((data_cf, extent_key 0 12), Entry None [segment_value 0 ''ABCD''])]\<rparr>"

lemma sample_ctx_data_extents [simp]: "extents_ok (mem_hist (db sample_ctx_data)) ino"
proof -
  have "op_wf (segment_value 0 ''ABCD'')" by (rule op_wf_segment) (simp_all add: extent_size)
  then show ?thesis
    by (auto simp: extents_ok_def sample_ctx_data_def mem_hist_def entry_ok_def base_wf_def entry_delete_def)
qed

lemma sample_ctx_data_bytes:
  "fbyte (mem_hist (db sample_ctx_data)) 12 0 = CHR ''A''" "fbyte (mem_hist (db sample_ctx_data)) 12 2 = CHR ''C''"
  by (simp_all add: fbyte_def ext_byte_def sample_ctx_data_def mem_hist_def entry_sem_def op_act_apply op_end_def extent_size)

theorem unaligned_read_shifted_witness:
  "\<exists>out' st. vn_read (mem_ext no_faults) sample_env sample_ctx_data (sample_heap_of 4) sample_file ''..'' 2 2 = Inr (2, out', st) \<and>
     out' ! 0 = CHR ''A'' \<and> fbyte (mem_hist (db sample_ctx_data)) 12 2 = CHR ''C''"
proof -
  obtain out' st where r: "vn_read (mem_ext no_faults) sample_env sample_ctx_data (sample_heap_of 4) sample_file ''..'' 2 2 = Inr (2, out', st)"
    and nth: "\<And>j. int j < 2 \<and> int j < 65536 - 2 mod 65536 \<Longrightarrow>
      out' ! j = fbyte (mem_hist (db sample_ctx_data)) 12 (nat (2 div 65536 * 65536) + j)"
    using unaligned_read_shifted [OF mem_reliable.rocksdb_reliable_axioms, of "sample_heap_of 4" sample_file "sample_inode_of 4"
        sample_ctx_data 2 2 "''..''" sample_env] by auto
  show ?thesis using r nth [of 0] sample_ctx_data_bytes by auto
qed

text \<open>
  C30: reading past the end of the file overruns the caller's buffer: the unsigned length
  wraps around, and whatever the store holds and answers, the copy runs beyond a buffer
  that is smaller than the rest of the extent.
\<close>

theorem read_past_end_overflows:
  assumes "heap_get h (inode file) = Inr n" "i_extent_size n = of_nat VIVEFS_EXTENT_SIZE"
    and "0 \<le> offset" "0 < len" "offset + len < 2 ^ 63" "uint (i_size n) < offset"
    and "int (length out_buf) < 65536 - offset mod 65536"
  shows "vn_read E env ctx h file out_buf len offset = Inl OutOfBounds"
  by (rule read_overflow [OF assms])

theorem read_past_end_overflows_witness:
  "vn_read (mem_ext no_faults) sample_env sample_ctx (sample_heap_of 4) sample_file (replicate 8 CHR ''x'') 8 16 = Inl OutOfBounds"
  by (rule read_past_end_overflows [of "sample_heap_of 4" sample_file "sample_inode_of 4"]) simp_all

text \<open>
  C31: failures of the store to take the data are swallowed. When every data operation is
  refused but the inode and the commit go through, \<open>vn_write\<close> still returns the full length
  and grows the file, while no byte has been stored.
\<close>

theorem write_swallows_errors:
  assumes "rocksdb E hist batch"
    and "\<And>t k v. fst (Merge E t data_cf k v) \<noteq> Ok" "\<And>t k v. fst (Put E t data_cf k v) \<noteq> Ok"
    and "\<And>t k v. fst (Put E t meta_cf k v) = Ok" "\<And>t d. fst (Commit E t d) = Ok"
    and "heap_get h (inode file) = Inr n" "i_extent_size n = of_nat VIVEFS_EXTENT_SIZE" "buf_mem env"
    and "0 \<le> offset" "0 \<le> len" "offset + len < 2 ^ 63" "len \<le> int (length in_buf)"
  shows "\<exists>ctx' h' file' n'. vn_write E env ctx h file in_buf len offset = Inr (len, ctx', h', file') \<and>
    hist (db ctx') data_cf = hist (db ctx) data_cf \<and> heap_get h' (inode file) = Inr n' \<and>
    uint (i_size n') = max (uint (i_size n)) (offset + len)"
proof -
  have g: "batch (write_segment E (fi_no file) 65536 index so data tx) = batch tx @ []" for index so data tx
    using rocksdb.merge_batch [OF assms(1), of tx data_cf "extent_key index (fi_no file)" "segment_value so data"]
      rocksdb.put_batch [OF assms(1), of tx data_cf "extent_key index (fi_no file)" "segment_value so data"]
      assms(2) [of tx "extent_key index (fi_no file)" "segment_value so data"]
      assms(3) [of tx "extent_key index (fi_no file)" "segment_value so data"]
    by (cases "Merge E tx data_cf (extent_key index (fi_no file)) (segment_value so data)";
        cases "Put E tx data_cf (extent_key index (fi_no file)) (segment_value so data)")
      (auto simp: write_segment_def)
  have none: "concat (map (\<lambda>_. []) ws) = ([] :: wop list)" for ws :: "wop list" by (induction ws) simp_all
  have "inode file \<noteq> 0" using assms(6) by (simp add: heap_get_Inr)
  with rocksdb.write_steps [OF assms(1,6-12,4,5), of "\<lambda>_. []" ctx, OF g] size_written_inode [OF assms(9-11), of env n]
  show ?thesis by (auto simp: none)
qed

definition data_fault :: faults where
  "data_fault = no_faults\<lparr>fail_write := (\<lambda>c k. c = data_cf)\<rparr>"

lemma data_fault_simps [simp]: "fail_write data_fault c k \<longleftrightarrow> c = data_cf" "\<not> fail_commit data_fault"
  by (simp_all add: data_fault_def no_faults_def)

theorem write_swallows_errors_witness:
  "\<exists>ctx' h' file'. vn_write (mem_ext data_fault) sample_env sample_ctx (sample_heap_of 0) sample_file ''ABCD'' 4 0 =
     Inr (4, ctx', h', file') \<and> mem_hist (db ctx') data_cf = mem_hist [] data_cf"
proof -
  have "\<exists>ctx' h' file' n'. vn_write (mem_ext data_fault) sample_env sample_ctx (sample_heap_of 0) sample_file ''ABCD'' 4 0 =
     Inr (4, ctx', h', file') \<and> mem_hist (db ctx') data_cf = mem_hist (db sample_ctx) data_cf \<and>
     heap_get h' (inode sample_file) = Inr n' \<and> uint (i_size n') = max (uint (i_size (sample_inode_of 0))) (0 + 4)"
    by (rule write_swallows_errors [OF mem.rocksdb_axioms]) (simp_all add: mem_write_def)
  then show ?thesis by auto
qed

end
