(* ===== verification/FileVec.thy ===== *)
theory FileVec
  imports FileBytes
begin

text \<open>
  The vectored calls against the plain ones: gathering from a vector reads its elements in
  order, scattering writes them in order, and \<open>vn_writev\<close> and \<open>vn_readv\<close> behave as
  \<open>vn_write\<close> and \<open>vn_read\<close> on the concatenation of the elements.
\<close>

section \<open>Positions in a vector\<close>

text \<open>A position in a vector, as a position in the concatenation of its elements.\<close>

definition iov_pos :: "slice list \<Rightarrow> nat \<Rightarrow> nat \<Rightarrow> nat" where
  "iov_pos iov iov_idx in_iov_off = length (concat (take iov_idx iov)) + in_iov_off"

definition iov_at :: "slice list \<Rightarrow> nat \<Rightarrow> nat \<Rightarrow> bool" where
  "iov_at iov iov_idx in_iov_off \<longleftrightarrow>
     (if iov_idx < length iov then in_iov_off \<le> length (iov ! iov_idx)
      else iov_idx = length iov \<and> in_iov_off = 0)"

lemma concat_split:
  "i < length iov \<Longrightarrow> concat iov = concat (take i iov) @ iov ! i @ concat (drop (Suc i) iov)"
  by (metis concat.simps(2) concat_append id_take_nth_drop)

lemma iov_advance_pos:
  assumes "i < length iov" and "off \<le> length (iov ! i)"
  shows "iov_pos iov (fst (iov_advance iov i off)) (snd (iov_advance iov i off)) = iov_pos iov i off"
    and "iov_at iov (fst (iov_advance iov i off)) (snd (iov_advance iov i off))"
  using assms by (auto simp: iov_advance_def iov_pos_def iov_at_def take_Suc_conv_app_nth)

lemma iov_at_inside:
  assumes "iov_at iov i off" and "iov_pos iov i off < length (concat iov)"
  shows "i < length iov" and "off \<le> length (iov ! i)"
  using assms by (auto simp: iov_at_def iov_pos_def split: if_splits)

section \<open>Gathering and scattering\<close>

lemma gather_run:
  assumes "iov_at iov i off" and "iov_pos iov i off + remain \<le> length (concat iov)"
  shows "\<exists>i' off'. gather iov i off remain acc =
      Inr (acc @ take remain (drop (iov_pos iov i off) (concat iov)), i', off') \<and>
      iov_at iov i' off' \<and> iov_pos iov i' off' = iov_pos iov i off + remain"
  using assms
proof (induction iov i off remain acc rule: gather.induct)
  case (1 iov i off remain acc)
  show ?case
  proof (cases "remain = 0")
    case True
    then show ?thesis using 1(2) by (subst gather.simps) simp
  next
    case False
    with 1(3) have i: "i < length iov" "off \<le> length (iov ! i)"
      using iov_at_inside [OF 1(2)] by simp_all
    define c where "c = iov_copy iov i off remain"
    define pos where "pos = iov_advance iov i (off + c)"
    have c: "c = min (length (iov ! i) - off) remain" using i(2) by (simp add: c_def iov_copy_def cint)
    then have le: "off + c \<le> length (iov ! i)" "c \<le> remain" using i(2) by auto
    note adv = iov_advance_pos [OF i(1) le(1), folded pos_def]
    have pos: "iov_pos iov (fst pos) (snd pos) = iov_pos iov i off + c" using adv(1) by (simp add: iov_pos_def)
    have run: "gather iov i off remain acc =
        gather iov (fst pos) (snd pos) (remain - c) (acc @ take c (drop off (iov ! i)))"
      using False i(1) le by (subst gather.simps) (simp add: Let_def flip: c_def pos_def)
    have "drop (iov_pos iov i off) (concat iov) = drop off (iov ! i) @ concat (drop (Suc i) iov)"
      using i by (subst concat_split [OF i(1)]) (simp add: iov_pos_def)
    then have "take c (drop (iov_pos iov i off) (concat iov)) = take c (drop off (iov ! i))"
      using le(1) by simp
    then have data: "take remain (drop (iov_pos iov i off) (concat iov)) =
        take c (drop off (iov ! i)) @ take (remain - c) (drop (iov_pos iov i off + c) (concat iov))"
      using take_add [of c "remain - c" "drop (iov_pos iov i off) (concat iov)"] le(2) by (simp add: add.commute)
    have "\<exists>i' off'. gather iov (fst pos) (snd pos) (remain - c) (acc @ take c (drop off (iov ! i))) =
      Inr ((acc @ take c (drop off (iov ! i))) @ take (remain - c) (drop (iov_pos iov (fst pos) (snd pos)) (concat iov)), i', off') \<and>
      iov_at iov i' off' \<and> iov_pos iov i' off' = iov_pos iov (fst pos) (snd pos) + (remain - c)"
      by (rule 1(1) [OF False _ c_def pos_def]) (use i(1) le adv(2) pos 1(3) in auto)
    then show ?thesis unfolding run data pos using le(2) by simp
  qed
qed

lemma scatter_run:
  assumes "iov_at iov i off" and "iov_pos iov i off + length data \<le> length (concat iov)"
  shows "\<exists>iov' i' off'. scatter iov i off data = Inr (iov', i', off') \<and>
      map length iov' = map length iov \<and> iov_at iov' i' off' \<and> iov_pos iov' i' off' = iov_pos iov i off + length data \<and>
      concat iov' = take (iov_pos iov i off) (concat iov) @ data @ drop (iov_pos iov i off + length data) (concat iov)"
  using assms
proof (induction iov i off data rule: scatter.induct)
  case (1 iov i off data)
  show ?case
  proof (cases "data = []")
    case True
    then show ?thesis using 1(2) by (subst scatter.simps) simp
  next
    case False
    with 1(3) have "iov_pos iov i off < length (concat iov)" by (cases data) auto
    note i = iov_at_inside [OF 1(2) this]
    define c where "c = iov_copy iov i off (length data)"
    define pos where "pos = iov_advance iov i (off + c)"
    define b where "b = take off (iov ! i) @ take c data @ drop (off + c) (iov ! i)"
    have c: "c = min (length (iov ! i) - off) (length data)" using i(2) by (simp add: c_def iov_copy_def cint)
    then have le: "off + c \<le> length (iov ! i)" "c \<le> length data" using i(2) by auto
    let ?iov = "iov[i := b]"
    have lb: "length b = length (iov ! i)" using le by (simp add: b_def)
    have ml: "map length ?iov = map length iov" using lb i(1) by (simp add: map_update list_update_same_conv)
    have lc: "length (concat (take j ?iov)) = length (concat (take j iov))" for j
      using ml by (simp add: length_concat take_map [symmetric])
    have pos': "iov_advance ?iov i (off + c) = pos" using i(1) lb by (simp add: pos_def iov_advance_def)
    note adv = iov_advance_pos [of i ?iov "off + c", unfolded pos']
    have pos: "iov_pos ?iov (fst pos) (snd pos) = iov_pos iov i off + c" and at: "iov_at ?iov (fst pos) (snd pos)"
      using adv i(1) le(1) lb lc [of i] by (simp_all add: iov_pos_def)
    have run: "scatter iov i off data = scatter ?iov (fst pos) (snd pos) (drop c data)"
      using False i(1) le by (subst scatter.simps) (simp add: Let_def flip: c_def pos_def b_def)
    let ?p = "iov_pos iov i off" and ?X = "concat iov"
    have "concat ?iov = concat (take i iov) @ b @ concat (drop (Suc i) iov)"
      using i(1) concat_split [of i ?iov] by simp
    also have "\<dots> = take ?p ?X @ take c data @ drop (?p + c) ?X"
      using i le unfolding concat_split [OF i(1)] by (simp add: iov_pos_def b_def)
    finally have X: "concat ?iov = take ?p ?X @ take c data @ drop (?p + c) ?X" .
    have tot: "length (concat ?iov) = length ?X" using ml by (simp add: length_concat)
    have "\<exists>iov' i' off'. scatter ?iov (fst pos) (snd pos) (drop c data) = Inr (iov', i', off') \<and>
      map length iov' = map length ?iov \<and> iov_at iov' i' off' \<and>
      iov_pos iov' i' off' = iov_pos ?iov (fst pos) (snd pos) + length (drop c data) \<and>
      concat iov' = take (iov_pos ?iov (fst pos) (snd pos)) (concat ?iov) @ drop c data @
        drop (iov_pos ?iov (fst pos) (snd pos) + length (drop c data)) (concat ?iov)"
      by (rule 1(1) [OF False _ c_def pos_def, folded b_def])
        (use i(1) le at pos 1(3) tot in \<open>auto\<close>)
    moreover have "take (?p + c) (concat ?iov) = take ?p ?X @ take c data"
      using 1(3) le(2) by (simp add: X)
    moreover have "drop (?p + c + length (drop c data)) (concat ?iov) = drop (?p + length data) ?X"
      using 1(3) le(2) by (simp add: X add.commute)
    moreover have "take c data @ drop c data @ ys = data @ ys" for ys
      by (metis append_assoc append_take_drop_id)
    ultimately show ?thesis unfolding run pos using le(2) ml by auto
  qed
qed

lemma scatter_overflow:
  assumes "iov_at iov i off" and "length (concat iov) < iov_pos iov i off + length data"
  shows "scatter iov i off data = Inl OutOfBounds"
  using assms
proof (induction iov i off data rule: scatter.induct)
  case (1 iov i off data)
  have le: "iov_pos iov i off \<le> length (concat iov)"
  proof (cases "i < length iov")
    case True
    then show ?thesis using 1(2) by (subst concat_split [OF True]) (simp add: iov_pos_def iov_at_def)
  qed (use 1(2) in \<open>simp add: iov_pos_def iov_at_def\<close>)
  with 1(3) have d: "data \<noteq> []" by auto
  show ?case
  proof (cases "i < length iov")
    case False
    then show ?thesis using d by (subst scatter.simps) simp
  next
    case True
    with 1(2) have off: "off \<le> length (iov ! i)" by (simp add: iov_at_def)
    define c where "c = iov_copy iov i off (length data)"
    define pos where "pos = iov_advance iov i (off + c)"
    define b where "b = take off (iov ! i) @ take c data @ drop (off + c) (iov ! i)"
    have c: "c = min (length (iov ! i) - off) (length data)" using off by (simp add: c_def iov_copy_def cint)
    then have cl: "off + c \<le> length (iov ! i)" "c \<le> length data" using off by auto
    let ?iov = "iov[i := b]"
    have lb: "length b = length (iov ! i)" using cl by (simp add: b_def)
    have ml: "map length ?iov = map length iov" using lb True by (simp add: map_update list_update_same_conv)
    have lc: "length (concat (take j ?iov)) = length (concat (take j iov))" "length (concat ?iov) = length (concat iov)" for j
      using ml by (simp_all add: length_concat take_map [symmetric])
    have pos': "iov_advance ?iov i (off + c) = pos" using True lb by (simp add: pos_def iov_advance_def)
    note adv = iov_advance_pos [of i ?iov "off + c", unfolded pos']
    have pos: "iov_pos ?iov (fst pos) (snd pos) = iov_pos iov i off + c" and at: "iov_at ?iov (fst pos) (snd pos)"
      using adv True cl(1) lb lc(1) [of i] by (simp_all add: iov_pos_def)
    have "scatter iov i off data = scatter ?iov (fst pos) (snd pos) (drop c data)"
      using d True cl by (subst scatter.simps) (simp add: Let_def flip: c_def pos_def b_def)
    also have "\<dots> = Inl OutOfBounds"
      by (rule 1(1) [OF d _ c_def pos_def, folded b_def]) (use True cl at pos 1(3) lc(2) in auto)
    finally show ?thesis .
  qed
qed

section \<open>The calls\<close>

text \<open>\<open>vn_writev\<close> is \<open>vn_write\<close> of the gathered buffer.\<close>

lemma iov_total_concat:
  assumes "int (length (concat iov)) < 2 ^ 64"
  shows "iov_total iov = int (length (concat iov))"
proof -
  have "fold (\<lambda>b len. u64 (len + int (length b))) bs a = a + int (length (concat bs))"
    if "0 \<le> a" "a + int (length (concat bs)) < 2 ^ 64" for a bs
    using that by (induction bs arbitrary: a) (auto simp: cint)
  from this [of 0 iov] show ?thesis using assms by (simp add: iov_total_def)
qed

lemma writev_extents_eq:
  assumes "at_extent len offset index buf_offset" and l: "len = int (length (concat iov))"
    and e: "(end_ext - 1) * 65536 < offset + len"
    and "buf_offset < len \<or> end_ext \<le> index"
    and "iov_at iov i off" "int (iov_pos iov i off) = buf_offset"
  shows "writev_extents E ino 65536 iov len offset end_ext index buf_offset i off tx =
    write_extents E ino 65536 (concat iov) len offset end_ext index buf_offset tx"
  using assms(1,4-6)
proof (induction index buf_offset arbitrary: i off tx rule: extent_loop_induct [where end_ext = end_ext])
  case (fin index buf_offset)
  then show ?case by (simp add: writev_extents.simps write_extents.simps)
next
  case (step index buf_offset so sl)
  note sg = segment_at [OF step(1), folded step(3), folded step(4)] and b = step(1) [unfolded at_extent_def]
  have bl: "buf_offset < len" using step(2,6) by simp
  have fit: "iov_pos iov i off + nat sl \<le> length (concat iov)"
    using sg(5,6) l step(8) by linarith
  from gather_run [OF step(7) fit, of "[]"] obtain i' off' where
    g: "gather iov i off (nat sl) [] = Inr (take (nat sl) (drop (iov_pos iov i off) (concat iov)), i', off')"
      "iov_at iov i' off'" "iov_pos iov i' off' = iov_pos iov i off + nat sl" by auto
  have bo: "iov_pos iov i off = nat buf_offset" using step(8) by simp
  have ld: "load_bytes (concat iov) (nat buf_offset) (nat sl) = Inr (take (nat sl) (drop (nat buf_offset) (concat iov)))"
    using fit unfolding bo by (simp add: load_bytes_def)
  have c: "\<not> 65536 < sl" "0 < sl" using sg(2,3,4,7) bl by linarith+
  have "buf_offset + sl < len \<or> end_ext \<le> index + 1"
    by (rule write_loop_exit [OF step(1) bl e step(3,4)])
  moreover have "int (iov_pos iov i' off') = buf_offset + sl" using g(3) step(8) sg(5) by simp
  ultimately show ?case
    using step.IH [OF _ g(2)] g(1) ld c
    by (subst writev_extents.simps, subst write_extents.simps)
      (simp only: Let_def step(2) if_True if_False simp_thms bindR_simps prod.case bo flip: step(3) step(4))
qed

lemma vn_writev_eq:
  assumes n: "heap_get h (inode file) = Inr n" "i_extent_size n = of_nat VIVEFS_EXTENT_SIZE"
    and "buf_mem env" and b: "0 \<le> offset" "offset + int (length (concat iov)) < 2 ^ 63"
    and z: "concat iov \<noteq> [] \<or> offset mod 65536 = 0"
  shows "vn_writev E env ctx h file iov offset =
    vn_write E env ctx h file (concat iov) (int (length (concat iov))) offset"
proof -
  have es: "uint (i_extent_size n) = 65536" by (simp add: n(2) extent_size)
  let ?len = "int (length (concat iov))"
  have tot: "iov_total iov = ?len" using b by (intro iov_total_concat) simp
  have l: "0 \<le> ?len" by simp
  note e = end_ext_bounds(3) [OF b(1) l b(2)] and at = at_extent_start [OF b(1) l b(2)]
  have st: "0 < ?len \<or> end_ext_of 65536 ?len offset \<le> offset sdiv 65536"
  proof (cases "concat iov = []")
    case True
    with z have "offset = offset div 65536 * 65536" using div_mult_mod_eq [of offset 65536] by simp
    moreover have "(end_ext_of 65536 ?len offset - 1) * 65536 < offset" using e unfolding True by simp
    ultimately have "(end_ext_of 65536 ?len offset - 1) * 65536 < offset div 65536 * 65536" by (simp only:)
    then have "end_ext_of 65536 ?len offset \<le> offset div 65536" by (simp only: mult_less_cancel_right) linarith
    then show ?thesis using b(1) by (simp only: cint zero_less_numeral simp_thms)
  qed simp
  have "iov_at iov 0 0" "int (iov_pos iov 0 0) = 0" by (simp_all add: iov_at_def iov_pos_def)
  note eq = writev_extents_eq [OF at refl e st this]
  show ?thesis
    by (simp only: vn_writev_def vn_write_def tot Let_def n(1) bindR_simps es eq assms(3) simp_thms if_False
        if_True zero_neq_numeral [symmetric])
qed

lemma vn_writev_empty:
  assumes n: "heap_get h (inode file) = Inr n" "i_extent_size n = of_nat VIVEFS_EXTENT_SIZE"
    and "buf_mem env" and b: "0 \<le> offset" "offset < 2 ^ 63"
    and z: "concat iov = []" "offset mod 65536 \<noteq> 0"
  shows "vn_writev E env ctx h file iov offset = Inl AssertFailed"
proof -
  have es: "uint (i_extent_size n) = 65536" by (simp add: n(2) extent_size)
  have tot: "iov_total iov = 0" using iov_total_concat [of iov] z(1) by simp
  have "offset + 0 \<le> end_ext_of 65536 0 offset * 65536" by (rule end_ext_bounds(1)) (use b in simp_all)
  then have "offset \<le> end_ext_of 65536 0 offset * 65536" by simp
  moreover have "offset = offset div 65536 * 65536 + offset mod 65536" by simp
  moreover have "0 \<le> offset mod 65536" by simp
  ultimately have "offset div 65536 < end_ext_of 65536 0 offset" using z(2) by linarith
  then have lt: "offset sdiv 65536 < end_ext_of 65536 0 offset"
    using b(1) by (simp only: cint zero_less_numeral)
  have "segment_len_of 65536 0 0 so \<le> 0" for so by (simp add: segment_len_of_def u64_def)
  then have "writev_extents E (fi_no file) 65536 iov 0 offset (end_ext_of 65536 0 offset) (offset sdiv 65536) 0 0 0 tx =
      Inl AssertFailed" for tx
    using lt by (subst writev_extents.simps) (auto simp: Let_def not_less)
  then show ?thesis
    using n(1) assms(3) by (simp add: vn_writev_def tot es)
qed

text \<open>\<open>vn_readv\<close> is \<open>vn_read\<close> into the concatenated buffer.\<close>

lemma readv_extents_eq:
  assumes "iov_at iov i off" and "int (iov_pos iov i off) = buf_offset"
  shows "(case readv_extents E d ino es len offset end_ext index buf_offset iov i off of
      Inl f \<Rightarrow> read_extents E d ino es len offset end_ext index buf_offset (concat iov) = Inl f
    | Inr iov' \<Rightarrow> map length iov' = map length iov \<and>
        read_extents E d ino es len offset end_ext index buf_offset (concat iov) = Inr (concat iov'))"
  using assms
proof (induction E d ino es len offset end_ext index buf_offset iov i off rule: readv_extents.induct)
  case (1 E d ino es len offset end_ext index buf_offset iov i off)
  show ?case
  proof (cases "index < end_ext")
    case False
    then show ?thesis by (simp add: readv_extents.simps read_extents.simps)
  next
    case True
    define so where "so = start_off_of es offset buf_offset"
    define sl where "sl = segment_len_of es len buf_offset so"
    have sl: "0 \<le> sl" by (simp add: sl_def segment_len_of_def u64_def)
    have bo: "nat buf_offset = iov_pos iov i off" using 1(3) by simp
    note eqs = readv_extents.simps [of E d ino es len offset end_ext index buf_offset iov i off]
      read_extents.simps [of E d ino es len offset end_ext index buf_offset "concat iov"]
    show ?thesis
    proof (cases "read_segment E d (extent_key index ino) (nat sl)")
      case (Inl f)
      then show ?thesis
        by (simp only: eqs Let_def True if_True bindR_simps sum.case flip: so_def sl_def)
    next
      case (Inr data)
      note len = read_segment_length [OF Inr]
      show ?thesis
      proof (cases "iov_pos iov i off + length data \<le> length (concat iov)")
        case False
        then have "scatter iov i off data = Inl OutOfBounds" "store_bytes (concat iov) (nat buf_offset) data = Inl OutOfBounds"
          using scatter_overflow [OF 1(2), of data] by (simp_all add: store_bytes_def bo)
        then show ?thesis
          by (simp only: eqs Let_def True if_True Inr bindR_simps sum.case flip: so_def sl_def)
      next
        case fits: True
        from scatter_run [OF 1(2) fits] obtain iov1 i1 off1 where
          s: "scatter iov i off data = Inr (iov1, i1, off1)" "map length iov1 = map length iov" "iov_at iov1 i1 off1"
            "iov_pos iov1 i1 off1 = iov_pos iov i off + length data"
            "concat iov1 = take (iov_pos iov i off) (concat iov) @ data @ drop (iov_pos iov i off + length data) (concat iov)"
          by blast
        have st: "store_bytes (concat iov) (nat buf_offset) data = Inr (concat iov1)"
          using fits by (simp add: store_bytes_def bo s(5))
        have "int (iov_pos iov1 i1 off1) = buf_offset + sl" using s(4) 1(3) len sl by simp
        from 1(1) [OF True so_def sl_def s(3) this]
        show ?thesis
          by (simp only: eqs Let_def True if_True Inr bindR_simps s(1,2) st prod.case flip: so_def sl_def)
      qed
    qed
  qed
qed

lemma vn_readv_eq:
  assumes "int (length (concat iov)) < 2 ^ 64"
  shows "(case vn_readv E env ctx h file iov offset of
      Inl f \<Rightarrow> vn_read E env ctx h file (concat iov) (int (length (concat iov))) offset = Inl f
    | Inr (r, iov', st) \<Rightarrow> map length iov' = map length iov \<and>
        vn_read E env ctx h file (concat iov) (int (length (concat iov))) offset = Inr (r, concat iov', st))"
proof (cases "heap_get h (inode file)")
  case (Inl f)
  then show ?thesis by (simp add: vn_readv_def vn_read_def Let_def)
next
  case (Inr n)
  have "iov_at iov 0 0" "int (iov_pos iov 0 0) = 0" by (simp_all add: iov_at_def iov_pos_def)
  from readv_extents_eq [OF this, of E "db ctx" "fi_no file" "uint (i_extent_size n)"
      "read_len n (int (length (concat iov))) offset" offset
      "end_ext_of (uint (i_extent_size n)) (int (length (concat iov))) offset" "offset sdiv uint (i_extent_size n)"]
  show ?thesis
    unfolding vn_readv_def vn_read_def iov_total_concat [OF assms] Let_def Inr bindR_simps
    by (auto split: sum.splits simp: bindR_simps)
qed

section \<open>Properties\<close>

text \<open>
  C11: \<open>vn_writev\<close> is equivalent to \<open>vn_write\<close> of the concatenated elements: same result, same
  effect on the store and on the inode, for every store and every way of splitting the data.
\<close>

theorem writev_equals_write:
  assumes "heap_get h (inode file) = Inr n" "i_extent_size n = of_nat VIVEFS_EXTENT_SIZE" "buf_mem env"
    and "0 \<le> offset" "offset + int (length (concat iov)) < 2 ^ 63"
    and "concat iov \<noteq> [] \<or> offset mod 65536 = 0"
  shows "vn_writev E env ctx h file iov offset =
    vn_write E env ctx h file (concat iov) (int (length (concat iov))) offset"
  by (rule vn_writev_eq [OF assms])

theorem writev_equals_write_witness:
  "vn_writev (mem_ext no_faults) sample_env sample_ctx (sample_heap_of 0) sample_file [''AB'', [], ''C''] 65535 =
   vn_write (mem_ext no_faults) sample_env sample_ctx (sample_heap_of 0) sample_file ''ABC'' 3 65535"
  using writev_equals_write [of "sample_heap_of 0" sample_file "sample_inode_of 0" sample_env 65535 "[''AB'', [], ''C'']"
      "mem_ext no_faults" sample_ctx] by simp

text \<open>
  C12: \<open>vn_readv\<close> is equivalent to \<open>vn_read\<close> into the concatenated elements, for every store,
  offset and buffer split, faults included: it fails exactly when \<open>vn_read\<close> fails, and else
  returns the same length and inode and the same bytes, element lengths unchanged.
\<close>

theorem readv_equals_read:
  assumes "int (length (concat iov)) < 2 ^ 64"
  shows "(case vn_readv E env ctx h file iov offset of
      Inl f \<Rightarrow> vn_read E env ctx h file (concat iov) (int (length (concat iov))) offset = Inl f
    | Inr (r, iov', st) \<Rightarrow> map length iov' = map length iov \<and>
        vn_read E env ctx h file (concat iov) (int (length (concat iov))) offset = Inr (r, concat iov', st))"
  by (rule vn_readv_eq [OF assms])

theorem readv_equals_read_witness:
  "\<exists>iov' st. vn_readv (mem_ext no_faults) sample_env sample_ctx_data (sample_heap_of 4) sample_file [''.'', ''...''] 0 = Inr (4, iov', st) \<and>
     map length iov' = [1, 3] \<and> hd (concat iov') = CHR ''A''"
proof -
  obtain out' where r: "vn_read (mem_ext no_faults) sample_env sample_ctx_data (sample_heap_of 4) sample_file ''....'' 4 0 =
      Inr (4, out', finish_read sample_env (sample_heap_of 4) sample_file (sample_inode_of 4))" "length out' = 4" "out' ! 0 = fbyte (mem_hist (db sample_ctx_data)) 12 0"
    using mem_reliable.read_run [of "sample_heap_of 4" sample_file "sample_inode_of 4" sample_ctx_data 0 4 "''....''" sample_env]
    by (auto simp: read_pos_def)
  from r(2,3) have hd: "hd out' = CHR ''A''" by (cases out') (auto simp: sample_ctx_data_bytes)
  have c: "concat [''.'', ''...''] = ''....''" "int (length ''....'') = 4" "map length [''.'', ''...''] = [1, 3]"
    "(4 :: int) < 2 ^ 64" by simp_all
  have "case vn_readv (mem_ext no_faults) sample_env sample_ctx_data (sample_heap_of 4) sample_file [''.'', ''...''] 0 of
      Inl f \<Rightarrow> vn_read (mem_ext no_faults) sample_env sample_ctx_data (sample_heap_of 4) sample_file ''....'' 4 0 = Inl f
    | Inr (r, iov', st) \<Rightarrow> map length iov' = [1, 3] \<and>
        vn_read (mem_ext no_faults) sample_env sample_ctx_data (sample_heap_of 4) sample_file ''....'' 4 0 = Inr (r, concat iov', st)"
    using readv_equals_read [of "[''.'', ''...'']" "mem_ext no_faults" sample_env sample_ctx_data "sample_heap_of 4" sample_file 0]
    unfolding c(1-3) using c(4) by blast
  then show ?thesis using r(1) hd by (auto split: sum.splits)
qed

text \<open>
  A vectored write of no data at an unaligned offset does not return 0 but fails the
  assertion on the segment length, where \<open>vn_write\<close> of no data succeeds.
\<close>

theorem writev_of_nothing_asserts:
  assumes "heap_get h (inode file) = Inr n" "i_extent_size n = of_nat VIVEFS_EXTENT_SIZE" "buf_mem env"
    and "0 \<le> offset" "offset < 2 ^ 63" and "concat iov = []" "offset mod 65536 \<noteq> 0"
  shows "vn_writev E env ctx h file iov offset = Inl AssertFailed"
  by (rule vn_writev_empty [OF assms])

theorem writev_of_nothing_asserts_witness:
  "vn_writev (mem_ext no_faults) sample_env sample_ctx (sample_heap_of 4) sample_file [[]] 2 = Inl AssertFailed"
  by (rule writev_of_nothing_asserts [of "sample_heap_of 4" sample_file "sample_inode_of 4"]) simp_all

end
