(* ===== verification/DirOps.thy ===== *)
theory DirOps
  imports Namespace
begin

text \<open>
  What unlinking and listing do. \<open>vn_unlink\<close> is described twice: on any store, by the keys
  it can change at all, and on a store without failures, by its exact effect. Listing a
  directory through the iterator delivers the entries of the directory, each once, in the
  order of their names.
\<close>

section \<open>Unlinking\<close>

definition file_extent_key :: "64 word \<Rightarrow> nat \<Rightarrow> slice" where
  "file_extent_key ino i = extent_key_bytes \<lparr>extent_index = of_nat i, inode_no = ino\<rparr>"

context rocksdb
begin

lemma delete_extents_effect:
  "\<exists>ws. batch (delete_extents E c ino cnt tx) = batch tx @ ws \<and>
     (\<forall>w\<in>set ws. \<exists>i < nat cnt. w = WDelete c (file_extent_key ino i))"
proof -
  have "\<exists>ws. batch (fold (delete_extent E c ino) is t) = batch t @ ws \<and>
     (\<forall>w\<in>set ws. \<exists>i \<in> set is. w = WDelete c (file_extent_key ino i))" for "is" t
  proof (induction "is" arbitrary: t)
    case (Cons i "is")
    obtain s t1 where 1: "Delete E t c (file_extent_key ino i) = (s, t1)" by force
    from Cons [of t1] obtain ws where ws: "batch (fold (delete_extent E c ino) is t1) = batch t1 @ ws"
      "\<forall>w\<in>set ws. \<exists>i \<in> set is. w = WDelete c (file_extent_key ino i)" by blast
    have "fold (delete_extent E c ino) (i # is) t = fold (delete_extent E c ino) is t1"
      using 1 by (simp add: delete_extent_def file_extent_key_def)
    then show ?case
      using ws delete_batch [OF 1]
      by (cases "s = Ok") (auto intro!: exI [of _ "WDelete c (file_extent_key ino i) # ws"] exI [of _ ws])
  qed simp
  from this [of "[0..<nat cnt]" tx] show ?thesis unfolding delete_extents_def by fastforce
qed

text \<open>What the transaction of an unlink holds.\<close>

lemma unlink_tx:
  assumes "(if i_links_count n = 0 then
      bindR (extent_count n) (\<lambda>cnt. Inr (Ok, snd (Delete E (delete_extents E default_cf (i_no n) cnt (BeginTransaction E d)) meta_cf k)))
      else Inr (vn_persist_inode_tx E (BeginTransaction E d) n)) = Inr (Ok, tx)"
  shows "batch tx \<in> {[], [WPut meta_cf (inode_key (i_no n)) (inode_bytes n)]} \<or>
    (\<exists>ws. (\<forall>w\<in>set ws. wop_cf w = default_cf) \<and> batch tx \<in> {ws, ws @ [WDelete meta_cf k]})"
proof (cases "i_links_count n = 0")
  case True
  let ?t = "BeginTransaction E d"
  obtain cnt where "tx = snd (Delete E (delete_extents E default_cf (i_no n) cnt ?t) meta_cf k)" using assms True by auto
  moreover obtain ws where "batch (delete_extents E default_cf (i_no n) cnt ?t) = ws"
    "\<forall>w\<in>set ws. \<exists>i < nat cnt. w = WDelete default_cf (file_extent_key (i_no n) i)"
    using delete_extents_effect [of default_cf "i_no n" cnt ?t] by (auto simp: begin_empty)
  ultimately show ?thesis
    using delete_batch [of "delete_extents E default_cf (i_no n) cnt ?t" meta_cf k]
    by (intro disjI2 exI [of _ ws]) (cases "Delete E (delete_extents E default_cf (i_no n) cnt ?t) meta_cf k", auto)
next
  case False
  then show ?thesis
    using assms put_batch [of "BeginTransaction E d" meta_cf "inode_key (i_no n)" "inode_bytes n" Ok tx]
    by (simp add: vn_persist_inode_tx_def begin_empty)
qed

text \<open>
  The runs of \<open>vn_unlink\<close>: the name is not found, or the inode is loaded, its link count
  drops, and the transaction is committed as a whole or not at all.
\<close>

lemma unlink_run:
  assumes r: "vn_unlink E env ctx h parent_ino fname = Inr (r, ctx', h')"
  obtains (absent) ino p where "vn_lookup_inode_no E env ctx h parent_ino fname True = Inr (ino, p, h')" "r = - ENOENT" "ctx' = ctx"
    | (linked) ino p h1 n m tx where "vn_lookup_inode_no E env ctx h parent_ino fname True = Inr (ino, p, h1)"
      "heap_get h1 p = Inr n" "m = n\<lparr>i_links_count := i_links_count n - 1\<rparr>" "vn_dec_inode_ref (heap_set h1 p m) p = Inr h'"
      "inode_seed ctx' = inode_seed ctx"
      "batch tx \<in> {[], [WPut meta_cf (inode_key (i_no m)) (inode_bytes m)]} \<or>
        (\<exists>ws. (\<forall>w\<in>set ws. wop_cf w = default_cf) \<and>
          batch tx \<in> {ws, ws @ [WDelete meta_cf (printf_ld_s (sint parent_ino) fname)]})"
      "if r = 0 then hist (db ctx') = apply_batch (batch tx) (hist (db ctx)) else hist (db ctx') = hist (db ctx)"
proof -
  obtain ino p h1 where l: "vn_lookup_inode_no E env ctx h parent_ino fname True = Inr (ino, p, h1)"
    using r by (auto simp: vn_unlink_def)
  note run = r [unfolded vn_unlink_def l bindR_simps prod.case]
  show ?thesis
  proof (cases "ino < 0")
    case True
    then show ?thesis using absent l run by simp
  next
    case False
    then obtain n where n: "heap_get h1 p = Inr n" using run by (cases "heap_get h1 p") auto
    define m where "m = n\<lparr>i_links_count := i_links_count n - 1\<rparr>"
    define X where "X = (if i_links_count m = 0 then
        bindR (extent_count m) (\<lambda>cnt. Inr (Ok, snd (Delete E (delete_extents E default_cf (i_no m) cnt (BeginTransaction E (db ctx)))
          meta_cf (printf_ld_s (sint parent_ino) fname))))
      else Inr (vn_persist_inode_tx E (BeginTransaction E (db ctx)) m))"
    have run2: "bindR X (\<lambda>(s, tx).
        if s \<noteq> Ok then bindR (vn_dec_inode_ref (heap_set h1 p m) p) (\<lambda>h. Inr (- EIO, rollback E tx ctx, h))
        else case Commit E tx (db ctx) of (s, d) \<Rightarrow>
          if s \<noteq> Ok then bindR (vn_dec_inode_ref (heap_set h1 p m) p) (\<lambda>h. Inr (- EIO, rollback E tx (ctx\<lparr>db := d\<rparr>), h))
          else bindR (vn_dec_inode_ref (heap_set h1 p m) p) (\<lambda>h. Inr (0, ctx\<lparr>db := d\<rparr>, h))) = Inr (r, ctx', h')"
      using run False unfolding X_def m_def Let_def format_printf n by (simp only: if_False bindR_simps)
    then obtain s tx where X: "X = Inr (s, tx)" by auto
    obtain s2 d where c: "Commit E tx (db ctx) = (s2, d)" by force
    have fin: "vn_dec_inode_ref (heap_set h1 p m) p = Inr h'" "inode_seed ctx' = inode_seed ctx"
      "if r = 0 then s = Ok \<and> hist (db ctx') = apply_batch (batch tx) (hist (db ctx)) else hist (db ctx') = hist (db ctx)"
      using run2 commit_hist [OF c] by (auto simp: X c rollback_hist EIO_def split: if_splits)
    show ?thesis
    proof (cases "r = 0")
      case True
      then have "X = Inr (Ok, tx)" using X fin(3) by simp
      from unlink_tx [OF this [unfolded X_def]] show ?thesis using linked [OF l n m_def fin(1,2)] fin(3) True by simp
    next
      case False
      then show ?thesis using linked [OF l n m_def fin(1,2), of "BeginTransaction E (db ctx)"] fin(3) by (simp add: begin_empty)
    qed
  qed
qed

lemma unlink_outcome:
  assumes "vn_unlink E env ctx h parent_ino fname = Inr (r, ctx', h')"
  shows "hist (db ctx') data_cf = hist (db ctx) data_cf"
    and "r \<noteq> 0 \<Longrightarrow> hist (db ctx') = hist (db ctx)"
    and "k \<noteq> printf_ld_s (sint parent_ino) fname \<Longrightarrow> k \<notin> range inode_key \<Longrightarrow>
      hist (db ctx') meta_cf k = hist (db ctx) meta_cf k"
    and "inode_seed ctx' = inode_seed ctx"
proof -
  let ?k = "printf_ld_s (sint parent_ino) fname"
  define ok where "ok w \<longleftrightarrow> wop_cf w = default_cf \<or> wop_cf w = meta_cf \<and> wop_key w \<in> insert ?k (range inode_key)" for w
  have main: "inode_seed ctx' = inode_seed ctx \<and> (\<exists>ws. (\<forall>w\<in>set ws. ok w) \<and>
      (if r = 0 then hist (db ctx') = apply_batch ws (hist (db ctx)) else hist (db ctx') = hist (db ctx)))"
    using assms
  proof (cases rule: unlink_run)
    case (absent ino p)
    then show ?thesis by (auto simp: ENOENT_def intro: exI [of _ "[]"])
  next
    case (linked ino p h1 n m tx)
    from linked(6) have "\<forall>w\<in>set (batch tx). ok w" by (auto simp: ok_def)
    then show ?thesis using linked(5,7) by blast
  qed
  then show "inode_seed ctx' = inode_seed ctx" "r \<noteq> 0 \<Longrightarrow> hist (db ctx') = hist (db ctx)" by auto
  have frame: "apply_batch ws H c k = H c k"
    if "\<forall>w\<in>set ws. ok w" "c = data_cf \<or> c = meta_cf \<and> k \<notin> insert ?k (range inode_key)" for ws H c k
    by (rule apply_batch_other) (use that in \<open>auto simp: ok_def\<close>)
  from main frame show "hist (db ctx') data_cf = hist (db ctx) data_cf" by (auto simp: fun_eq_iff split: if_splits)
  from main frame show "hist (db ctx') meta_cf k = hist (db ctx) meta_cf k" if "k \<noteq> ?k" "k \<notin> range inode_key"
    using that by (auto split: if_splits)
qed

end

context rocksdb_reliable
begin

lemma unlink_absent:
  assumes "hist (db ctx) meta_cf (printf_ld_s (sint parent_ino) fname) = entry_delete"
  shows "vn_unlink E env ctx h parent_ino fname = Inr (- ENOENT, ctx, h)"
  by (simp add: vn_unlink_def lookup_absent [OF assms])

lemma unlink_present:
  assumes "hist (db ctx) meta_cf (printf_ld_s (sint parent_ino) fname) = entry_put (word_bytes ino)"
    and "hist (db ctx) meta_cf (inode_key ino) = entry_put (inode_bytes n)"
    and n: "inode_valid n" "i_no n = ino" "i_extent_size n \<noteq> 0"
    and "inode_mem env (next_addr h)" and h: "heap_fresh h" and "0 \<le> sint ino"
  shows "\<exists>ctx' h'. vn_unlink E env ctx h parent_ino fname = Inr (0, ctx', h') \<and> cells h' = cells h \<and>
    hist (db ctx') meta_cf =
      (if i_links_count n = 1 then (hist (db ctx) meta_cf)(printf_ld_s (sint parent_ino) fname := entry_delete)
       else (hist (db ctx) meta_cf)
         (inode_key ino := entry_put (inode_bytes (n\<lparr>ref_cnt := 1, i_links_count := i_links_count n - 1\<rparr>))))"
proof -
  let ?k = "printf_ld_s (sint parent_ino) fname" and ?p = "next_addr h"
  let ?n = "n\<lparr>ref_cnt := 1, i_links_count := i_links_count n - 1\<rparr>" and ?t = "BeginTransaction E (db ctx)"
  have p: "?p \<noteq> 0" using h by (simp add: heap_fresh_def)
  note l = lookup_present(1) [OF assms(1,2) n(1) assms(6) p]
  let ?h1 = "snd (heap_alloc h (n\<lparr>ref_cnt := 1\<rparr>))"
  have g: "heap_get ?h1 ?p = Inr (n\<lparr>ref_cnt := 1\<rparr>)" using p by (simp add: heap_alloc_def heap_get_def)
  have dec: "vn_dec_inode_ref (heap_set ?h1 ?p m) ?p = Inr (heap_free ?h1 ?p)" if "ref_cnt m = 1" for m
    using p that by (simp add: vn_dec_inode_ref_def)
  have cells: "cells (heap_free ?h1 ?p) = cells h" by (rule heap_alloc_free [OF h])
  show ?thesis
  proof (cases "i_links_count n = 1")
    case True
    obtain cnt where cnt: "extent_count (n\<lparr>ref_cnt := 1, i_links_count := 0\<rparr>) = Inr cnt"
      using n(3) by (simp add: extent_count_def)
    let ?t1 = "delete_extents E default_cf ino cnt ?t"
    obtain ws where ws: "batch ?t1 = ws" "\<forall>w\<in>set ws. \<exists>i < nat cnt. w = WDelete default_cf (file_extent_key ino i)"
      using delete_extents_effect [of default_cf ino cnt ?t] by (auto simp: begin_empty)
    obtain t2 where t2: "Delete E ?t1 meta_cf ?k = (Ok, t2)" "batch t2 = ws @ [WDelete meta_cf ?k]"
      using delete_ok ws(1) by metis
    obtain d where d: "Commit E t2 (db ctx) = (Ok, d)" "hist d = apply_batch (batch t2) (hist (db ctx))"
      using commit_ok by blast
    have "apply_batch ws H meta_cf = H meta_cf" for H
      using ws(2) by (intro ext apply_batch_other) auto
    then have "hist d meta_cf = (hist (db ctx) meta_cf)(?k := entry_delete)"
      unfolding d(2) t2(2) by simp
    moreover have "vn_unlink E env ctx h parent_ino fname = Inr (0, ctx\<lparr>db := d\<rparr>, heap_free ?h1 ?p)"
      using assms(8) True
      by (simp add: vn_unlink_def l g Let_def cnt n(2) format_printf t2(1) d(1) dec
          del: heap_set_simps bindR_eq_Inr)
    ultimately show ?thesis using cells True by simp
  next
    case False
    then have nz: "i_links_count n - 1 \<noteq> 0" by simp
    obtain t2 where t2: "Put E ?t meta_cf (inode_key ino) (inode_bytes ?n) = (Ok, t2)"
      "batch t2 = [WPut meta_cf (inode_key ino) (inode_bytes ?n)]"
      using put_ok [of ?t meta_cf "inode_key ino" "inode_bytes ?n"] by (auto simp: begin_empty)
    obtain d where d: "Commit E t2 (db ctx) = (Ok, d)" "hist d = apply_batch (batch t2) (hist (db ctx))"
      using commit_ok by blast
    have "hist d meta_cf = (hist (db ctx) meta_cf)(inode_key ino := entry_put (inode_bytes ?n))"
      unfolding d(2) t2(2) by simp
    moreover have "vn_unlink E env ctx h parent_ino fname = Inr (0, ctx\<lparr>db := d\<rparr>, heap_free ?h1 ?p)"
      using assms(8) nz
      by (simp add: vn_unlink_def l g Let_def n(2) vn_persist_inode_tx_def t2(1) d(1) dec
          del: heap_set_simps bindR_eq_Inr)
    ultimately show ?thesis using cells False by simp
  qed
qed

end

section \<open>Listing\<close>

text \<open>The loop of a caller that reads a directory: entry names and inodes, in order.\<close>

primrec list_dir ::
  "nat \<Rightarrow> ('db, 'tx) ext \<Rightarrow> sysenv \<Rightarrow> 'db ViveFsContext \<Rightarrow> inode_heap \<Rightarrow> vn_inode_iterator \<Rightarrow> nat \<Rightarrow>
   ((string \<times> nat) list \<times> inode_heap) result" where
  "list_dir 0 E env ctx h it buf_len = Inr ([], h)"
| "list_dir (Suc m) E env ctx h it buf_len =
     (if \<not> vn_iterator_has_next it then Inr ([], h)
      else bindR (vn_next_inode E env ctx h it buf_len) (\<lambda>(p, name, it, h).
        if p = 0 then Inr ([], h)
        else bindR (list_dir m E env ctx h it buf_len) (\<lambda>(es, h). Inr ((name, p) # es, h))))"

text \<open>The entries of a directory that a listing can deliver into a buffer of \<open>buf_len\<close> bytes.\<close>

definition dir_entry_ok :: "hist \<Rightarrow> 64 word \<Rightarrow> nat \<Rightarrow> slice \<Rightarrow> bool" where
  "dir_entry_ok H dir buf_len k \<longleftrightarrow>
     (\<exists>name n. k = printf_ld_s (sint dir) name \<and> length name < buf_len \<and> inode_valid n \<and>
        H meta_cf k = entry_put (word_bytes (i_no n)) \<and> H meta_cf (inode_key (i_no n)) = entry_put (inode_bytes n))"

lemma prefix_between:
  fixes p a b :: string
  shows "p \<le> a \<Longrightarrow> a \<le> b \<Longrightarrow> prefix p b \<Longrightarrow> prefix p a"
proof (induction p arbitrary: a b)
  case (Cons c p)
  obtain b' where b: "b = c # b'" "prefix p b'" using Cons.prems(3) by (cases b) auto
  obtain d a' where a: "a = d # a'" using Cons.prems(1) by (cases a) auto
  with Cons.prems(1,2) b have "c = d" "p \<le> a'" "a' \<le> b'" by auto
  with Cons.IH b a show ?case by auto
qed simp

lemma append_less_cancel [simp]:
  fixes p a b :: string
  shows "p @ a < p @ b \<longleftrightarrow> a < b"
  by (induction p) auto

lemma append_le_self: "(p :: string) \<le> p @ s"
  by (induction p) auto

lemma takeWhile_prefix_sorted:
  fixes p :: string
  assumes "sorted_wrt (<) (map fst xs)" and "\<forall>x\<in>set xs. p \<le> fst x"
  shows "takeWhile (\<lambda>x. prefix p (fst x)) xs = filter (\<lambda>x. prefix p (fst x)) xs"
  using assms
proof (induction xs)
  case (Cons x xs)
  show ?case
  proof (cases "prefix p (fst x)")
    case False
    have "\<not> prefix p (fst y)" if "y \<in> set xs" for y
      using False prefix_between [of p "fst x" "fst y"] Cons.prems that by fastforce
    then show ?thesis using False by (auto simp: filter_empty_conv)
  qed (use Cons in simp)
qed simp

context rocksdb_reliable
begin

lemma list_dir_run:
  assumes "\<forall>k. prefix (printf_ld_s (sint dir) []) k \<longrightarrow> k \<in> fst ` set xs \<longrightarrow>
      dir_entry_ok (hist (db ctx)) dir buf_len k"
    and "\<forall>(k, v)\<in>set xs. entry_reads (hist (db ctx) meta_cf k) v"
    and "\<forall>p. inode_mem env p" and "next_addr h \<noteq> 0"
  shows "\<exists>es h'. list_dir (length xs) E env ctx h \<lparr>itor = xs, dir_prefix = printf_ld_s (sint dir) []\<rparr> buf_len = Inr (es, h') \<and>
    map fst es = map (\<lambda>x. drop (length (printf_ld_s (sint dir) [])) (fst x))
      (takeWhile (\<lambda>x. prefix (printf_ld_s (sint dir) []) (fst x)) xs)"
  using assms
proof (induction xs arbitrary: h)
  case (Cons x xs)
  obtain k v where x: "x = (k, v)" by force
  let ?pre = "printf_ld_s (sint dir) []"
  show ?case
  proof (cases "prefix ?pre k")
    case False
    then show ?thesis by (simp add: x vn_iterator_has_next_def)
  next
    case True
    with Cons.prems(1) obtain name n where e: "k = printf_ld_s (sint dir) name" "length name < buf_len" "inode_valid n"
        "hist (db ctx) meta_cf k = entry_put (word_bytes (i_no n))"
        "hist (db ctx) meta_cf (inode_key (i_no n)) = entry_put (inode_bytes n)"
      unfolding dir_entry_ok_def x by force
    with Cons.prems(2) have v: "v = word_bytes (i_no n)" unfolding x by auto
    let ?h = "snd (heap_alloc h (n\<lparr>ref_cnt := 1\<rparr>))"
    have h: "next_addr ?h \<noteq> 0" by (simp add: heap_alloc_def)
    have "deserialize_inode env h (inode_bytes n) = Inr (next_addr h, ?h)"
      using deserialize_inode_bytes e(3) Cons.prems(3) by blast
    moreover have "heap_get ?h (next_addr h) = Inr (n\<lparr>ref_cnt := 1\<rparr>)"
      using Cons.prems(4) by (simp add: heap_alloc_def heap_get_def)
    moreover have "drop (length ?pre) k = name" by (simp add: e(1))
    ultimately have nx: "vn_next_inode E env ctx h \<lparr>itor = x # xs, dir_prefix = ?pre\<rparr> buf_len =
        Inr (next_addr h, name, \<lparr>itor = xs, dir_prefix = ?pre\<rparr>, ?h)"
      using True get_put [OF e(5)] e(2) Cons.prems(4)
      by (simp add: vn_next_inode_def x v load_bytes_def)
    have p1: "\<forall>k. prefix ?pre k \<longrightarrow> k \<in> fst ` set xs \<longrightarrow> dir_entry_ok (hist (db ctx)) dir buf_len k"
      using Cons.prems(1) by auto
    have p2: "\<forall>(k, v)\<in>set xs. entry_reads (hist (db ctx) meta_cf k) v" using Cons.prems(2) by auto
    from Cons.IH [OF p1 p2 Cons.prems(3) h] obtain es h' where
      ih: "list_dir (length xs) E env ctx ?h \<lparr>itor = xs, dir_prefix = ?pre\<rparr> buf_len = Inr (es, h')"
        "map fst es = map (\<lambda>x. drop (length ?pre) (fst x)) (takeWhile (\<lambda>x. prefix ?pre (fst x)) xs)" by blast
    have "vn_iterator_has_next \<lparr>itor = x # xs, dir_prefix = ?pre\<rparr>"
      using True by (simp add: vn_iterator_has_next_def x)
    then have "list_dir (length (x # xs)) E env ctx h \<lparr>itor = x # xs, dir_prefix = ?pre\<rparr> buf_len =
        Inr ((name, next_addr h) # es, h')"
      using nx ih(1) Cons.prems(4) by simp
    then show ?thesis using True ih(2) by (simp add: x e(1))
  qed
qed simp

lemma list_dir_complete:
  fixes dir :: "64 word"
  assumes "\<forall>k. entry_sound (hist (db ctx) meta_cf k)"
    and ok: "\<forall>k. prefix (printf_ld_s (sint dir) []) k \<longrightarrow> hist (db ctx) meta_cf k \<noteq> entry_delete \<longrightarrow>
      dir_entry_ok (hist (db ctx)) dir buf_len k"
    and "\<forall>p. inode_mem env p" and "next_addr h \<noteq> 0"
  defines "it \<equiv> vn_begin_iterate_dir E ctx dir"
  shows "\<exists>es h'. list_dir (length (itor it)) E env ctx h it buf_len = Inr (es, h') \<and>
    sorted_wrt (<) (map fst es) \<and>
    set (map fst es) = {name. hist (db ctx) meta_cf (printf_ld_s (sint dir) name) \<noteq> entry_delete}"
proof -
  let ?pre = "printf_ld_s (sint dir) []" and ?H = "hist (db ctx)"
  let ?xs = "Scan E (db ctx) meta_cf ?pre"
  have it: "it = \<lparr>itor = ?xs, dir_prefix = ?pre\<rparr>" by (simp add: it_def vn_begin_iterate_dir_def format_printf Let_def)
  have sound: "?pre \<le> k \<and> entry_reads (?H meta_cf k) v" if "(k, v) \<in> set ?xs" for k v
    using scan_sound [OF that] .
  have "dir_entry_ok ?H dir buf_len k" if k: "prefix ?pre k" "k \<in> fst ` set ?xs" for k
  proof -
    from k(2) obtain v where "(k, v) \<in> set ?xs" by force
    then have "?H meta_cf k \<noteq> entry_delete" using sound by fastforce
    with ok k(1) show ?thesis by blast
  qed
  then have "\<forall>k. prefix ?pre k \<longrightarrow> k \<in> fst ` set ?xs \<longrightarrow> dir_entry_ok ?H dir buf_len k" by blast
  moreover have "\<forall>(k, v)\<in>set ?xs. entry_reads (?H meta_cf k) v" using sound by auto
  ultimately obtain es h' where es: "list_dir (length ?xs) E env ctx h it buf_len = Inr (es, h')"
    "map fst es = map (\<lambda>x. drop (length ?pre) (fst x)) (takeWhile (\<lambda>x. prefix ?pre (fst x)) ?xs)"
    using list_dir_run [of dir ?xs ctx buf_len env h] assms(3,4) unfolding it by blast
  have ge: "\<forall>x\<in>set ?xs. ?pre \<le> fst x" using sound by auto
  have tw: "takeWhile (\<lambda>x. prefix ?pre (fst x)) ?xs = filter (\<lambda>x. prefix ?pre (fst x)) ?xs"
    by (rule takeWhile_prefix_sorted [OF scan_sorted ge])
  let ?f = "filter (\<lambda>x. prefix ?pre (fst x)) ?xs"
  have cut: "?pre @ drop (length ?pre) k = k" if "prefix ?pre k" for k
    using that by (auto simp: prefix_def)
  have "sorted_wrt (<) (map fst ?f)"
    using sorted_wrt_filter [of "\<lambda>x y. fst x < fst y" ?xs] scan_sorted [of "db ctx" meta_cf ?pre] by (simp add: sorted_wrt_map)
  then have "sorted_wrt (\<lambda>x y. drop (length ?pre) (fst x) < drop (length ?pre) (fst y)) ?f"
    unfolding sorted_wrt_map
  proof (rule sorted_wrt_mono_rel [rotated])
    fix x y assume "x \<in> set ?f" "y \<in> set ?f" "fst x < fst y"
    then have "?pre @ drop (length ?pre) (fst x) < ?pre @ drop (length ?pre) (fst y)"
      using cut [of "fst x"] cut [of "fst y"] by simp
    then show "drop (length ?pre) (fst x) < drop (length ?pre) (fst y)" by (rule append_less_cancel [THEN iffD1])
  qed
  then have "sorted_wrt (<) (map fst es)" unfolding es(2) tw by (simp add: sorted_wrt_map)
  moreover have "set (map fst es) = {name. ?H meta_cf (printf_ld_s (sint dir) name) \<noteq> entry_delete}"
  proof
    show "set (map fst es) \<subseteq> {name. ?H meta_cf (printf_ld_s (sint dir) name) \<noteq> entry_delete}"
    proof
      fix name assume "name \<in> set (map fst es)"
      then obtain k v where k: "(k, v) \<in> set ?xs" "prefix ?pre k" "name = drop (length ?pre) k"
        unfolding es(2) tw by auto
      then have "k = printf_ld_s (sint dir) name" using cut [of k] by (simp add: printf_ld_s_def)
      moreover have "?H meta_cf k \<noteq> entry_delete" using sound [OF k(1)] by auto
      ultimately show "name \<in> {name. ?H meta_cf (printf_ld_s (sint dir) name) \<noteq> entry_delete}" by simp
    qed
    show "{name. ?H meta_cf (printf_ld_s (sint dir) name) \<noteq> entry_delete} \<subseteq> set (map fst es)"
    proof
      fix name assume "name \<in> {name. ?H meta_cf (printf_ld_s (sint dir) name) \<noteq> entry_delete}"
      then have ne: "?H meta_cf (printf_ld_s (sint dir) name) \<noteq> entry_delete" by simp
      have "?pre \<le> printf_ld_s (sint dir) name"
        using append_le_self [of ?pre name] by (simp add: printf_ld_s_def)
      from scan_complete [OF this _ ne] assms(1) obtain v where "(printf_ld_s (sint dir) name, v) \<in> set ?xs" by auto
      then have "(printf_ld_s (sint dir) name, v) \<in> set ?f" by simp
      then show "name \<in> set (map fst es)" unfolding es(2) tw by (force simp del: set_filter)
    qed
  qed
  ultimately show ?thesis using es(1) by (auto simp: it)
qed

end

section \<open>Properties\<close>

lemma sample_inode [simp]:
  "i_extent_size (created_inode env ino mode uid gid) = of_nat VIVEFS_EXTENT_SIZE"
  "i_links_count (created_inode env ino mode uid gid) = 1"
  by (simp_all add: created_inode_def new_inode_def)

text \<open>
  C17: unlinking the only name of a file, on a store that reports no failure, returns 0,
  deletes exactly that directory entry from the metadata, leaves the in-memory inodes as
  they were, and makes every later lookup of the name fail.
\<close>

theorem unlink_removes_name:
  assumes "rocksdb_reliable E hist batch"
    and "hist (db ctx) meta_cf (printf_ld_s (sint parent_ino) fname) = entry_put (word_bytes (i_no n))"
    and "hist (db ctx) meta_cf (inode_key (i_no n)) = entry_put (inode_bytes n)"
    and "inode_valid n" and "i_extent_size n \<noteq> 0" and "i_links_count n = 1"
    and "inode_mem env (next_addr h)" and "heap_fresh h" and "0 \<le> sint (i_no n)"
  shows "\<exists>ctx' h'. vn_unlink E env ctx h parent_ino fname = Inr (0, ctx', h') \<and> cells h' = cells h \<and>
    hist (db ctx') meta_cf = (hist (db ctx) meta_cf)(printf_ld_s (sint parent_ino) fname := entry_delete) \<and>
    vn_lookup_inode_no E env ctx' h' parent_ino fname True = Inr (-1, 0, h')"
proof -
  from rocksdb_reliable.unlink_present [OF assms(1-4) refl assms(5,7-9)] assms(6) obtain ctx' h' where
    u: "vn_unlink E env ctx h parent_ino fname = Inr (0, ctx', h')" "cells h' = cells h"
      "hist (db ctx') meta_cf = (hist (db ctx) meta_cf)(printf_ld_s (sint parent_ino) fname := entry_delete)"
    by auto
  from rocksdb_reliable.lookup_absent [OF assms(1), of ctx' parent_ino fname env h' True] u show ?thesis by simp
qed

theorem unlink_removes_name_witness:
  "\<exists>ctx' h'. vn_unlink (mem_ext no_faults) sample_env sample_ctx_a sample_heap 2 ''a'' = Inr (0, ctx', h') \<and>
     vn_lookup_inode_no (mem_ext no_faults) sample_env ctx' h' 2 ''a'' True = Inr (-1, 0, h')"
  using unlink_removes_name [OF mem_reliable.rocksdb_reliable_axioms, of sample_ctx_a 2 "''a''"
      "created_inode sample_env 12 420 0 0" sample_env sample_heap]
  by (auto simp: sample_ctx_a_hist extent_size)

text \<open>
  C27: on any store, whatever \<open>vn_unlink\<close> returns, the data column family is untouched: the
  extents of the removed file stay stored. An unsuccessful call changes nothing, and no call
  changes another directory entry, the seed or the superblock.
\<close>

theorem unlink_frame:
  assumes "rocksdb E hist batch" and "vn_unlink E env ctx h parent_ino fname = Inr (r, ctx', h')"
  shows "hist (db ctx') data_cf = hist (db ctx) data_cf \<and> inode_seed ctx' = inode_seed ctx \<and>
    (r \<noteq> 0 \<longrightarrow> hist (db ctx') = hist (db ctx)) \<and>
    (\<forall>k. k \<noteq> printf_ld_s (sint parent_ino) fname \<and> k \<notin> range inode_key \<longrightarrow>
       hist (db ctx') meta_cf k = hist (db ctx) meta_cf k)"
  using rocksdb.unlink_outcome [OF assms] by blast

theorem unlink_frame_witness:
  "\<exists>ctx' h'. vn_unlink (mem_ext no_faults) sample_env sample_ctx_a sample_heap 2 ''a'' = Inr (0, ctx', h') \<and>
     mem_hist (db ctx') data_cf = mem_hist (db sample_ctx_a) data_cf"
proof -
  obtain ctx' h' where u: "vn_unlink (mem_ext no_faults) sample_env sample_ctx_a sample_heap 2 ''a'' = Inr (0, ctx', h')"
    using mem_reliable.unlink_present [of sample_ctx_a 2 "''a''" 12 "created_inode sample_env 12 420 0 0" sample_env sample_heap]
    by (auto simp: sample_ctx_a_hist extent_size)
  from unlink_frame [OF mem.rocksdb_axioms u] u show ?thesis by blast
qed

text \<open>
  C15: listing a directory delivers every entry of it exactly once, in the order of the
  names, and nothing else, provided every stored key with the directory's prefix is an
  entry whose inode record is there and whose name fits the caller's buffer.
\<close>

theorem listing_is_complete:
  assumes "rocksdb_reliable E hist batch" and "\<forall>k. entry_sound (hist (db ctx) meta_cf k)"
    and "\<forall>k. prefix (printf_ld_s (sint dir) []) k \<longrightarrow> hist (db ctx) meta_cf k \<noteq> entry_delete \<longrightarrow>
      dir_entry_ok (hist (db ctx)) dir buf_len k"
    and "\<forall>p. inode_mem env p" and "next_addr h \<noteq> 0"
  shows "\<exists>es h'. list_dir (length (itor (vn_begin_iterate_dir E ctx dir))) E env ctx h (vn_begin_iterate_dir E ctx dir) buf_len =
      Inr (es, h') \<and> sorted_wrt (<) (map fst es) \<and>
    set (map fst es) = {name. hist (db ctx) meta_cf (printf_ld_s (sint dir) name) \<noteq> entry_delete}"
  by (rule rocksdb_reliable.list_dir_complete [OF assms])

lemma sample_ctx_a_present:
  "mem_hist (db sample_ctx_a) meta_cf k \<noteq> entry_delete \<longleftrightarrow> k = printf_ld_s 2 ''a'' \<or> k = inode_key 12"
  by (auto simp: sample_ctx_a_def mem_hist_def)

theorem listing_is_complete_witness:
  "\<exists>p h'. list_dir (length (itor (vn_begin_iterate_dir (mem_ext no_faults) sample_ctx_a 2))) (mem_ext no_faults) sample_env
     sample_ctx_a sample_heap (vn_begin_iterate_dir (mem_ext no_faults) sample_ctx_a 2) 256 = Inr ([(''a'', p)], h')"
proof -
  have no: "\<not> prefix (printf_ld_s 2 []) (inode_key 12)" using inode_key_prefix_bound [of 2 12] by auto
  have ok: "dir_entry_ok (mem_hist (db sample_ctx_a)) 2 256 k"
    if "prefix (printf_ld_s 2 []) k" "mem_hist (db sample_ctx_a) meta_cf k \<noteq> entry_delete" for k
    using that no sample_ctx_a_hist unfolding sample_ctx_a_present dir_entry_ok_def
    by (auto intro!: exI [of _ "created_inode sample_env 12 420 0 0"])
  have names: "{name. mem_hist (db sample_ctx_a) meta_cf (printf_ld_s 2 name) \<noteq> entry_delete} = {''a''}"
  proof -
    have "printf_ld_s 2 name \<noteq> inode_key 12" for name
      using no prefix_printf_ld_s [of 2 2 name] by metis
    then show ?thesis unfolding sample_ctx_a_present by auto
  qed
  have "entry_sound (mem_hist (db sample_ctx_a) meta_cf k)" for k
    by (auto simp: sample_ctx_a_def mem_hist_def)
  then obtain es h' where es: "list_dir (length (itor (vn_begin_iterate_dir (mem_ext no_faults) sample_ctx_a 2)))
      (mem_ext no_faults) sample_env sample_ctx_a sample_heap (vn_begin_iterate_dir (mem_ext no_faults) sample_ctx_a 2) 256 =
      Inr (es, h')" "sorted_wrt (<) (map fst es)" "set (map fst es) = {''a''}"
    using listing_is_complete [OF mem_reliable.rocksdb_reliable_axioms, of sample_ctx_a 2 256 sample_env sample_heap] ok names
    by auto
  from es(2,3) have "map fst es = [''a'']" by (cases es; cases "tl es") (auto split: if_splits)
  then show ?thesis using es(1) by auto
qed

end
