(* ===== verification/OpenFile.thy ===== *)
theory OpenFile
  imports FileVec DirOps
begin

text \<open>
  Opening, synchronising and closing files: \<open>vn_open_file_by_inode\<close>, \<open>vn_open_file\<close>,
  \<open>vn_fsync\<close> and \<open>vn_close_file\<close> of \<open>src/src/vn_file.cpp\<close>. An open file holds one reference
  on its in-memory inode; the lemmas follow that reference and what reaches the store.
\<close>

section \<open>Definitions\<close>

text \<open>The flags of \<open>open(2)\<close> that the code tests, as Linux defines them.\<close>

definition O_CREAT :: "32 word" where "O_CREAT = 0x40"
definition O_TRUNC :: "32 word" where "O_TRUNC = 0x200"
definition O_NOATIME :: "32 word" where "O_NOATIME = 0x40000"

definition has_flag :: "32 word \<Rightarrow> 32 word \<Rightarrow> bool" where
  "has_flag oflags f \<longleftrightarrow> oflags AND f \<noteq> 0"

text \<open>
  The truncating part of \<open>vn_open_file_by_inode\<close>. The flag of the result says whether the
  call goes on; otherwise it returns \<open>NULL\<close>. The in-memory size is reset before the
  transaction is known to succeed.
\<close>

definition truncate_inode ::
  "('db, 'tx) ext \<Rightarrow> 'db ViveFsContext \<Rightarrow> inode_heap \<Rightarrow> nat \<Rightarrow> (bool \<times> 'db ViveFsContext \<times> inode_heap) result" where
  "truncate_inode E ctx h p =
     bindR (heap_get h p) (\<lambda>n.
       let tx = BeginTransaction E (db ctx) in
       case GetForUpdate E (db ctx) tx meta_cf (inode_key (i_no n)) of (s, inode_buf, tx) \<Rightarrow>
       if s \<noteq> Ok then Inr (False, rollback E tx ctx, h)
       else bindR (extent_count n) (\<lambda>ext_cnt.
         let tx = delete_extents E data_cf (i_no n) ext_cnt tx;
             n = n\<lparr>i_size := 0\<rparr>;
             h = heap_set h p n
         in case vn_persist_inode_tx E tx n of (s, tx) \<Rightarrow>
         if s \<noteq> Ok then Inr (False, rollback E tx ctx, h)
         else case Commit E tx (db ctx) of (s, d) \<Rightarrow>
         if s \<noteq> Ok then Inr (False, rollback E tx (ctx\<lparr>db := d\<rparr>), h)
         else Inr (True, ctx\<lparr>db := d\<rparr>, h)))"

definition vn_open_file_by_inode ::
  "('db, 'tx) ext \<Rightarrow> 'db ViveFsContext \<Rightarrow> inode_heap \<Rightarrow> nat \<Rightarrow> 32 word \<Rightarrow>
   (ViveFile option \<times> 'db ViveFsContext \<times> inode_heap) result" where
  "vn_open_file_by_inode E ctx h p oflags =
     bindR (if has_flag oflags O_TRUNC then truncate_inode E ctx h p else Inr (True, ctx, h)) (\<lambda>(ok, ctx, h).
       if \<not> ok then Inr (None, ctx, h)
       else bindR (heap_get h p) (\<lambda>n.
            bindR (vn_add_inode_ref h p) (\<lambda>h.
            Inr (Some (new_ViveFile\<lparr>fi_no := i_no n, inode := p, noatime := has_flag oflags O_NOATIME\<rparr>), ctx, h))))"

text \<open>
  \<open>vn_open_file\<close>. Its first part finds the inode number, creating the file on \<open>O_CREAT\<close>;
  as in the lookup, only \<open>NotFound\<close> is tested.
\<close>

definition open_ino ::
  "('db, 'tx) ext \<Rightarrow> sysenv \<Rightarrow> 'db ViveFsContext \<Rightarrow> inode_heap \<Rightarrow> 64 word \<Rightarrow> string \<Rightarrow> 32 word \<Rightarrow> 16 word \<Rightarrow>
   ((64 word) option \<times> 'db ViveFsContext \<times> inode_heap) result" where
  "open_ino E env ctx h parent_ino fname oflags mode =
     (case Get E (db ctx) meta_cf (format_string E (sint parent_ino) fname) of (s, inode_no_buf) \<Rightarrow>
      if s = NotFound then
        if has_flag oflags O_CREAT then
          bindR (vn_create_file E env ctx h parent_ino fname mode 0 0 False) (\<lambda>(ino, p, ctx, h).
            if ino < 0 then Inr (None, ctx, h) else Inr (Some (of_int ino), ctx, h))
        else Inr (None, ctx, h)
      else bindR (load_bytes inode_no_buf 0 8) (\<lambda>b. Inr (Some (bytes_word b), ctx, h)))"

definition vn_open_file ::
  "('db, 'tx) ext \<Rightarrow> sysenv \<Rightarrow> 'db ViveFsContext \<Rightarrow> inode_heap \<Rightarrow> 64 word \<Rightarrow> string \<Rightarrow> 32 word \<Rightarrow> 16 word \<Rightarrow>
   (ViveFile option \<times> 'db ViveFsContext \<times> inode_heap) result" where
  "vn_open_file E env ctx h parent_ino fname oflags mode =
     bindR (open_ino E env ctx h parent_ino fname oflags mode) (\<lambda>(i, ctx, h).
       case i of None \<Rightarrow> Inr (None, ctx, h)
       | Some ino \<Rightarrow>
           (case Get E (db ctx) meta_cf (inode_key ino) of (s, inode_buf) \<Rightarrow>
            if s = NotFound then Inr (None, ctx, h)
            else bindR (deserialize_inode env h inode_buf) (\<lambda>(p, h).
              if p = 0 then Inr (None, ctx, h)
              else bindR (vn_open_file_by_inode E ctx h p oflags) (\<lambda>(f, ctx, h).
                   bindR (vn_dec_inode_ref h p) (\<lambda>h. Inr (f, ctx, h))))))"

text \<open>
  \<open>vn_fsync\<close>: the guard is never cancelled, and every path returns \<open>-EIO\<close>. \<open>sync_tx\<close> is
  its first part, the transaction that holds the inode of a dirty file.
\<close>

definition sync_tx :: "('db, 'tx) ext \<Rightarrow> 'db \<Rightarrow> inode_heap \<Rightarrow> ViveFile \<Rightarrow> (status \<times> 'tx) result" where
  "sync_tx E d h file =
     (let tx = BeginTransaction E d in
      if dirty file then bindR (heap_get h (inode file)) (\<lambda>n. Inr (vn_persist_inode_tx E tx n))
      else Inr (Ok, tx))"

definition vn_fsync ::
  "('db, 'tx) ext \<Rightarrow> 'db ViveFsContext \<Rightarrow> inode_heap \<Rightarrow> ViveFile \<Rightarrow> (int \<times> 'db ViveFsContext \<times> ViveFile) result" where
  "vn_fsync E ctx h file =
     bindR (sync_tx E (db ctx) h file) (\<lambda>(s, tx).
       if s \<noteq> Ok then Inr (- EIO, rollback E tx ctx, file)
       else let file = file\<lparr>dirty := False\<rparr> in
       case Commit E tx (db ctx) of (s, d) \<Rightarrow>
       if s \<noteq> Ok then Inr (- EIO, rollback E tx (ctx\<lparr>db := d\<rparr>), file)
       else case FlushWAL E True d of (s, d) \<Rightarrow>
       Inr (- EIO, rollback E tx (ctx\<lparr>db := d\<rparr>), file))"

definition vn_close_file ::
  "('db, 'tx) ext \<Rightarrow> 'db ViveFsContext \<Rightarrow> inode_heap \<Rightarrow> ViveFile \<Rightarrow> (int \<times> 'db ViveFsContext \<times> inode_heap) result" where
  "vn_close_file E ctx h file =
     bindR (vn_fsync E ctx h file) (\<lambda>(r, ctx, file).
     bindR (delete_ViveFile h file) (\<lambda>h. Inr (0, ctx, h)))"

text \<open>\<open>update_file_size\<close> is a stub that must not be called.\<close>

definition update_file_size :: "'db ViveFsContext \<Rightarrow> ViveInode \<Rightarrow> nat \<Rightarrow> int result" where
  "update_file_size ctx n new_size = Inl AssertFailed"

section \<open>Truncation\<close>

lemma file_extent_key_eq: "file_extent_key ino i = extent_key (int i) ino"
  by (simp add: file_extent_key_def extent_key_def)

lemma extent_count_covers:
  assumes "i_extent_size n = of_nat VIVEFS_EXTENT_SIZE" and "uint (i_size n) < 2 ^ 63"
  obtains cnt where "extent_count n = Inr cnt" and "0 \<le> cnt" and "uint (i_size n) \<le> cnt * 65536"
proof -
  have es: "uint (i_extent_size n) = 65536" "i_extent_size n \<noteq> 0" by (simp_all add: assms(1) extent_size)
  then have "extent_count n = Inr (end_ext_of 65536 0 (uint (i_size n)))"
    by (simp add: extent_count_def end_ext_of_def)
  moreover have "uint (i_size n) \<le> end_ext_of 65536 0 (uint (i_size n)) * 65536"
    using end_ext_bounds(1) [of "uint (i_size n)" 0] assms(2) by simp
  moreover from this have "0 \<le> end_ext_of 65536 0 (uint (i_size n)) * 65536"
    using order_trans [OF uint_nonnegative] by blast
  then have "0 \<le> end_ext_of 65536 0 (uint (i_size n))" by simp
  ultimately show ?thesis using that by blast
qed

definition extents_deleted :: "64 word \<Rightarrow> nat \<Rightarrow> cf \<Rightarrow> wop list" where
  "extents_deleted ino cnt c = map (\<lambda>i. WDelete c (file_extent_key ino i)) [0..<cnt]"

lemma apply_extents_deleted:
  "apply_batch (extents_deleted ino cnt c) H c' k =
    (if c' = c \<and> (\<exists>i < cnt. k = file_extent_key ino i) then entry_delete else H c' k)"
  by (induction cnt) (auto simp: extents_deleted_def less_Suc_eq)

lemma sint_nonneg_small:
  fixes w :: "64 word"
  assumes "unat w < 2 ^ 56"
  shows "0 \<le> sint w"
proof -
  have "int (unat w) < int (2 ^ 56)" using assms by (simp only: of_nat_less_iff)
  then have "uint w < 2 ^ 63" by simp
  then have "signed_take_bit 63 (uint w) = uint w"
    by (subst signed_take_bit_int_eq_self_iff) (simp add: order_trans [OF _ uint_nonnegative])
  moreover have "sint w = signed_take_bit 63 (uint w)" by (simp add: sint_uint)
  ultimately have "sint w = uint w" by simp
  then show ?thesis by (simp only: uint_nonnegative)
qed

context rocksdb_reliable
begin

lemma delete_extents_batch: "batch (delete_extents E c ino cnt tx) = batch tx @ extents_deleted ino (nat cnt) c"
proof -
  have "batch (fold (delete_extent E c ino) is t) = batch t @ map (\<lambda>i. WDelete c (file_extent_key ino i)) is" for "is" t
  proof (induction "is" arbitrary: t)
    case (Cons i "is")
    obtain t1 where t1: "Delete E t c (file_extent_key ino i) = (Ok, t1)" "batch t1 = batch t @ [WDelete c (file_extent_key ino i)]"
      using delete_ok by blast
    then show ?case using Cons [of t1] by (simp add: delete_extent_def file_extent_key_def)
  qed simp
  then show ?thesis by (simp add: delete_extents_def extents_deleted_def)
qed

lemma truncate_run:
  assumes n: "heap_get h p = Inr n" "i_extent_size n = of_nat VIVEFS_EXTENT_SIZE" "uint (i_size n) < 2 ^ 63"
    and "hist (db ctx) meta_cf (inode_key (i_no n)) = entry_put v"
  shows "\<exists>d cnt. truncate_inode E ctx h p = Inr (True, ctx\<lparr>db := d\<rparr>, heap_set h p (n\<lparr>i_size := 0\<rparr>)) \<and>
    uint (i_size n) \<le> int cnt * 65536 \<and>
    hist d = apply_batch (extents_deleted (i_no n) cnt data_cf @
      [WPut meta_cf (inode_key (i_no n)) (inode_bytes (n\<lparr>i_size := 0\<rparr>))]) (hist (db ctx))"
proof -
  let ?t = "BeginTransaction E (db ctx)" and ?k = "inode_key (i_no n)" and ?n = "n\<lparr>i_size := 0\<rparr>"
  obtain w t1 where 1: "GetForUpdate E (db ctx) ?t meta_cf ?k = (Ok, w, t1)"
    using gfu_status [of ?t "db ctx" meta_cf ?k] assms(4)
    by (cases "GetForUpdate E (db ctx) ?t meta_cf ?k") (auto simp: begin_empty)
  obtain cnt where cnt: "extent_count n = Inr cnt" "0 \<le> cnt" "uint (i_size n) \<le> cnt * 65536"
    using extent_count_covers [OF n(2,3)] by blast
  let ?t2 = "delete_extents E data_cf (i_no n) cnt t1"
  obtain t3 where 3: "Put E ?t2 meta_cf ?k (inode_bytes ?n) = (Ok, t3)" "batch t3 = batch ?t2 @ [WPut meta_cf ?k (inode_bytes ?n)]"
    using put_ok by blast
  obtain d where 4: "Commit E t3 (db ctx) = (Ok, d)" "hist d = apply_batch (batch t3) (hist (db ctx))"
    using commit_ok by blast
  have "batch t3 = extents_deleted (i_no n) (nat cnt) data_cf @ [WPut meta_cf ?k (inode_bytes ?n)]"
    using 3(2) gfu_batch [OF 1] by (simp add: delete_extents_batch begin_empty)
  moreover have "truncate_inode E ctx h p = Inr (True, ctx\<lparr>db := d\<rparr>, heap_set h p ?n)"
    by (simp add: truncate_inode_def n(1) Let_def 1 cnt(1) vn_persist_inode_tx_def 3(1) 4(1))
  ultimately show ?thesis using 4(2) cnt(2,3) by (intro exI [of _ d] exI [of _ "nat cnt"]) simp
qed

end

lemma truncated_bytes:
  assumes "hist' data_cf = apply_batch (extents_deleted ino cnt data_cf) H data_cf"
    and "int q < int cnt * 65536"
  shows "fbyte hist' ino q = CHR 0x00"
proof -
  have "q div 65536 < cnt" using assms(2) by (simp add: div_less_iff_less_mult)
  then have "\<exists>i<cnt. extent_key (int (q div 65536)) ino = file_extent_key ino i"
    by (auto simp: file_extent_key_eq)
  then have "hist' data_cf (extent_key (int (q div 65536)) ino) = entry_delete"
    unfolding assms(1) apply_extents_deleted by simp
  then show ?thesis
    by (simp add: fbyte_def ext_byte_def extent_size vive.sem_delete base_content_def)
qed

section \<open>References of open files\<close>

lemma open_plain:
  assumes "\<not> has_flag oflags O_TRUNC" and "heap_get h p = Inr n"
  shows "vn_open_file_by_inode E ctx h p oflags =
    Inr (Some (new_ViveFile\<lparr>fi_no := i_no n, inode := p, noatime := has_flag oflags O_NOATIME\<rparr>), ctx,
      heap_set h p (n\<lparr>ref_cnt := ref_cnt n + 1\<rparr>))"
  using assms by (simp add: vn_open_file_by_inode_def vn_add_inode_ref_def)

lemma delete_new_file:
  "inode f = p \<Longrightarrow> p \<noteq> 0 \<Longrightarrow> delete_ViveFile h f = vn_dec_inode_ref h p"
  by (simp add: delete_ViveFile_def)

lemma dec_after_add:
  assumes "heap_get h p = Inr n" and "ref_cnt n \<noteq> 0"
  shows "vn_dec_inode_ref (heap_set h p (n\<lparr>ref_cnt := ref_cnt n + 1\<rparr>)) p = Inr h"
  using add_dec_ref [OF assms] assms(1) by (simp add: vn_add_inode_ref_def)

section \<open>Synchronising\<close>

context rocksdb
begin

lemma sync_tx_batch:
  assumes "sync_tx E d h file = Inr (Ok, tx)"
  shows "batch tx = [] \<or> (\<exists>n. dirty file \<and> heap_get h (inode file) = Inr n \<and>
      batch tx = [WPut meta_cf (inode_key (i_no n)) (inode_bytes n)])"
  using assms put_batch [of "BeginTransaction E d" meta_cf _ _ Ok tx]
  by (auto simp: sync_tx_def Let_def begin_empty vn_persist_inode_tx_def split: if_splits)

lemma fsync_outcome:
  assumes "vn_fsync E ctx h file = Inr (r, ctx', file')"
  shows "r = - EIO" and "inode_seed ctx' = inode_seed ctx" and "inode file' = inode file"
    and "hist (db ctx') = hist (db ctx) \<or>
      (\<exists>n. dirty file \<and> heap_get h (inode file) = Inr n \<and>
        hist (db ctx') = apply_wop (WPut meta_cf (inode_key (i_no n)) (inode_bytes n)) (hist (db ctx)))"
proof -
  obtain s tx where 1: "sync_tx E (db ctx) h file = Inr (s, tx)"
    using assms by (cases "sync_tx E (db ctx) h file") (auto simp: vn_fsync_def Let_def)
  obtain s2 d2 where 2: "Commit E tx (db ctx) = (s2, d2)" by force
  obtain s3 d3 where 3: "FlushWAL E True d2 = (s3, d3)" by force
  have run: "(if s \<noteq> Ok then (- EIO, rollback E tx ctx, file)
      else if s2 \<noteq> Ok then (- EIO, rollback E tx (ctx\<lparr>db := d2\<rparr>), file\<lparr>dirty := False\<rparr>)
      else (- EIO, rollback E tx (ctx\<lparr>db := d3\<rparr>), file\<lparr>dirty := False\<rparr>)) = (r, ctx', file')"
    using assms by (simp add: vn_fsync_def Let_def 1 2 3 split: if_splits)
  then show "r = - EIO" "inode_seed ctx' = inode_seed ctx" "inode file' = inode file"
    by (auto split: if_splits)
  consider "s \<noteq> Ok \<or> s2 \<noteq> Ok" | "s = Ok" "s2 = Ok" by blast
  then show "hist (db ctx') = hist (db ctx) \<or>
      (\<exists>n. dirty file \<and> heap_get h (inode file) = Inr n \<and>
        hist (db ctx') = apply_wop (WPut meta_cf (inode_key (i_no n)) (inode_bytes n)) (hist (db ctx)))"
  proof cases
    case 1
    then show ?thesis using run commit_hist [OF 2] by (auto simp: rollback_hist split: if_splits)
  next
    case ok: 2
    then have "hist (db ctx') = apply_batch (batch tx) (hist (db ctx))"
      using run commit_hist [OF 2] flush_hist [OF 3] by (auto simp: rollback_hist)
    with sync_tx_batch [of "db ctx" h "file" tx] 1 ok(1) show ?thesis by fastforce
  qed
qed

lemma fsync_clean:
  assumes "\<not> dirty file"
  shows "\<exists>ctx' file'. vn_fsync E ctx h file = Inr (- EIO, ctx', file') \<and> hist (db ctx') = hist (db ctx) \<and>
    inode file' = inode file \<and> inode_seed ctx' = inode_seed ctx"
proof -
  obtain s2 d2 where 2: "Commit E (BeginTransaction E (db ctx)) (db ctx) = (s2, d2)" by force
  obtain s3 d3 where 3: "FlushWAL E True d2 = (s3, d3)" by force
  show ?thesis
    using assms commit_hist [OF 2] flush_hist [OF 3]
    by (auto simp: vn_fsync_def sync_tx_def Let_def 2 3 begin_empty rollback_hist)
qed

end

context rocksdb_reliable
begin

lemma fsync_dirty:
  assumes "dirty file" and "heap_get h (inode file) = Inr n"
  shows "\<exists>ctx'. vn_fsync E ctx h file = Inr (- EIO, ctx', file\<lparr>dirty := False\<rparr>) \<and>
    hist (db ctx') = apply_wop (WPut meta_cf (inode_key (i_no n)) (inode_bytes n)) (hist (db ctx))"
proof -
  let ?t = "BeginTransaction E (db ctx)"
  obtain t1 where 1: "Put E ?t meta_cf (inode_key (i_no n)) (inode_bytes n) = (Ok, t1)"
    "batch t1 = [WPut meta_cf (inode_key (i_no n)) (inode_bytes n)]"
    using put_ok [of ?t meta_cf "inode_key (i_no n)" "inode_bytes n"] by (auto simp: begin_empty)
  obtain d2 where 2: "Commit E t1 (db ctx) = (Ok, d2)" "hist d2 = apply_batch (batch t1) (hist (db ctx))"
    using commit_ok by blast
  obtain s3 d3 where 3: "FlushWAL E True d2 = (s3, d3)" by force
  show ?thesis
    using assms 1 2 flush_hist [OF 3] by (simp add: vn_fsync_def sync_tx_def Let_def vn_persist_inode_tx_def 3 rollback_hist del: bindR_eq_Inr)
qed

lemma open_creates:
  assumes "hist (db ctx) meta_cf (printf_ld_s (sint parent_ino) fname) = entry_delete"
    and "has_flag oflags O_CREAT" "\<not> has_flag oflags O_TRUNC"
    and mem: "\<forall>a. inode_mem env a" and h: "heap_fresh h"
    and "CHR 0x00 \<notin> set fname" and seed: "unat (inode_seed ctx) < 2 ^ 56"
  shows "\<exists>f ctx' h'. vn_open_file E env ctx h parent_ino fname oflags mode = Inr (Some f, ctx', h') \<and>
    fi_no f = inode_seed ctx \<and> inode f = next_addr h + 1 \<and>
    heap_get h' (inode f) = Inr (created_inode env (inode_seed ctx) mode 0 0) \<and>
    (\<forall>a. a \<noteq> inode f \<longrightarrow> cells h' a = cells h a) \<and> inode_seed ctx' = inode_seed ctx + 1 \<and>
    hist (db ctx') = apply_batch (create_batch parent_ino fname (created_inode env (inode_seed ctx) mode 0 0)) (hist (db ctx))"
proof -
  let ?n = "created_inode env (inode_seed ctx) mode 0 0" and ?p = "next_addr h"
  have p: "?p \<noteq> 0" using h by (simp add: heap_fresh_def)
  from create_drop [OF _ h assms(1), of env mode 0 0] mem obtain ctx1 h1 where
    c: "vn_create_file E env ctx h parent_ino fname mode 0 0 False = Inr (sint (inode_seed ctx), 0, ctx1, h1)"
      "hist (db ctx1) = apply_batch (create_batch parent_ino fname ?n) (hist (db ctx))"
      "inode_seed ctx1 = inode_seed ctx + 1" "cells h1 = cells h" "next_addr h1 = ?p + 1" by auto
  have u: "unat (i_no ?n) < 2 ^ 56" using seed by simp
  note b = apply_create_batch [OF assms(6) u, where parent_ino = parent_ino and H = "hist (db ctx)", folded c(2)]
  have nonneg: "0 \<le> sint (inode_seed ctx)" using seed by (simp add: sint_nonneg_small)
  have ino: "of_int (sint (inode_seed ctx)) = inode_seed ctx" by simp
  have oi: "open_ino E env ctx h parent_ino fname oflags mode = Inr (Some (inode_seed ctx), ctx1, h1)"
    using get_deleted [OF assms(1)] assms(2) c(1) nonneg ino by (simp add: open_ino_def format_printf)
  let ?h2 = "snd (heap_alloc h1 (?n\<lparr>ref_cnt := 1\<rparr>))"
  have de: "deserialize_inode env h1 (inode_bytes ?n) = Inr (?p + 1, ?h2)"
    using deserialize_inode_bytes [of ?n env h1] mem c(5) by simp
  have g: "heap_get ?h2 (?p + 1) = Inr (?n\<lparr>ref_cnt := 1\<rparr>)" by (simp add: heap_alloc_def heap_get_def c(5))
  have nn: "?n\<lparr>ref_cnt := 1\<rparr> = ?n" "ref_cnt ?n = 1" by (simp_all add: created_inode_def new_inode_def)
  note op = open_plain [OF assms(3) g, of E ctx1]
  have "vn_open_file E env ctx h parent_ino fname oflags mode =
      Inr (Some (new_ViveFile\<lparr>fi_no := inode_seed ctx, inode := ?p + 1, noatime := has_flag oflags O_NOATIME\<rparr>), ctx1, ?h2)"
    using get_put [OF b(2)] de op dec_after_add [OF g]
    by (simp add: vn_open_file_def oi nn)
  moreover have "\<forall>a. a \<noteq> ?p + 1 \<longrightarrow> cells ?h2 a = cells h a" using c(4,5) by (simp add: heap_alloc_def)
  ultimately show ?thesis using g c(2,3) nn by simp
qed

end

section \<open>Properties\<close>

text \<open>
  C21: opening a file with \<open>O_TRUNC\<close> on a store that reports no failure empties it: every byte
  below its old size reads as zero, size 0 is in memory and in the stored inode record, the
  caller's inode gains one reference, and no extent of another file changes.
\<close>

theorem open_truncates:
  assumes "rocksdb_reliable E hist batch" and "has_flag oflags O_TRUNC"
    and "heap_get h p = Inr n" "i_extent_size n = of_nat VIVEFS_EXTENT_SIZE" "uint (i_size n) < 2 ^ 63"
    and "hist (db ctx) meta_cf (inode_key (i_no n)) = entry_put v"
  shows "\<exists>f ctx' h'. vn_open_file_by_inode E ctx h p oflags = Inr (Some f, ctx', h') \<and>
    inode f = p \<and> fi_no f = i_no n \<and>
    heap_get h' p = Inr (n\<lparr>i_size := 0, ref_cnt := ref_cnt n + 1\<rparr>) \<and>
    hist (db ctx') meta_cf (inode_key (i_no n)) = entry_put (inode_bytes (n\<lparr>i_size := 0\<rparr>)) \<and>
    (\<forall>q. int q < uint (i_size n) \<longrightarrow> fbyte (hist (db ctx')) (i_no n) q = CHR 0x00) \<and>
    (\<forall>k. k \<notin> range (file_extent_key (i_no n)) \<longrightarrow> hist (db ctx') data_cf k = hist (db ctx) data_cf k)"
proof -
  let ?n = "n\<lparr>i_size := 0\<rparr>" and ?H = "hist (db ctx)"
  let ?w = "WPut meta_cf (inode_key (i_no n)) (inode_bytes ?n)"
  have p: "p \<noteq> 0" using assms(3) by (simp add: heap_get_Inr)
  from rocksdb_reliable.truncate_run [OF assms(1,3-6)] obtain d cnt where
    t: "truncate_inode E ctx h p = Inr (True, ctx\<lparr>db := d\<rparr>, heap_set h p ?n)"
      "uint (i_size n) \<le> int cnt * 65536"
      "hist d = apply_batch (extents_deleted (i_no n) cnt data_cf @ [?w]) ?H" by blast
  let ?f = "new_ViveFile\<lparr>fi_no := i_no n, inode := p, noatime := has_flag oflags O_NOATIME\<rparr>"
  have run: "vn_open_file_by_inode E ctx h p oflags =
      Inr (Some ?f, ctx\<lparr>db := d\<rparr>, heap_set h p (?n\<lparr>ref_cnt := ref_cnt n + 1\<rparr>))"
    using assms(2) p by (simp add: vn_open_file_by_inode_def t(1) vn_add_inode_ref_def)
  have D: "hist d data_cf = apply_batch (extents_deleted (i_no n) cnt data_cf) ?H data_cf"
    and M: "hist d meta_cf (inode_key (i_no n)) = entry_put (inode_bytes ?n)" by (simp_all add: t(3))
  have "fbyte (hist d) (i_no n) q = CHR 0x00" if "int q < uint (i_size n)" for q
    by (rule truncated_bytes [where hist' = "hist d" and H = ?H and cnt = cnt, OF D]) (use that t(2) in linarith)
  moreover have "hist d data_cf k = ?H data_cf k" if "k \<notin> range (file_extent_key (i_no n))" for k
    using that by (auto simp: D apply_extents_deleted)
  ultimately show ?thesis
    using run p M
    by (intro exI [of _ ?f] exI [of _ "ctx\<lparr>db := d\<rparr>"] exI [of _ "heap_set h p (?n\<lparr>ref_cnt := ref_cnt n + 1\<rparr>)"]) simp
qed

definition sample_ctx_file :: "memdb ViveFsContext" where
  "sample_ctx_file = sample_ctx\<lparr>db := mem_apply (WPut meta_cf (inode_key 12) (inode_bytes (sample_inode_of 4)))
     (mem_apply (seg_wop 12 0 0 ''ABCD'') [])\<rparr>"

lemma sample_ctx_file_record [simp]:
  "mem_hist (db sample_ctx_file) meta_cf (inode_key 12) = entry_put (inode_bytes (sample_inode_of 4))"
  by (simp add: sample_ctx_file_def)

theorem open_truncates_witness:
  "\<exists>f ctx' h'. vn_open_file_by_inode (mem_ext no_faults) sample_ctx_file (sample_heap_of 4) 1 O_TRUNC =
     Inr (Some f, ctx', h') \<and> fbyte (mem_hist (db ctx')) 12 2 = CHR 0x00 \<and>
     heap_get h' 1 = Inr ((sample_inode_of 4)\<lparr>i_size := 0, ref_cnt := ref_cnt (sample_inode_of 4) + 1\<rparr>)"
proof -
  have "has_flag O_TRUNC O_TRUNC" by (simp add: has_flag_def O_TRUNC_def)
  from open_truncates [OF mem_reliable.rocksdb_reliable_axioms this _ _ _ sample_ctx_file_record [folded sample_file_simps(8) [of 4]],
      of "sample_heap_of 4" 1]
  obtain f ctx' h' where
    "vn_open_file_by_inode (mem_ext no_faults) sample_ctx_file (sample_heap_of 4) 1 O_TRUNC = Inr (Some f, ctx', h')"
    "heap_get h' 1 = Inr ((sample_inode_of 4)\<lparr>i_size := 0, ref_cnt := ref_cnt (sample_inode_of 4) + 1\<rparr>)"
    "\<forall>q < 4. fbyte (mem_hist (db ctx')) 12 q = CHR 0x00" by auto
  then show ?thesis by auto
qed

text \<open>
  C22: opening and closing a file balance, on every store, also one whose calls fail: an open
  without \<open>O_TRUNC\<close> followed by a close returns 0, leaves the heap of in-memory inodes
  exactly as it was and stores nothing.
\<close>

theorem open_close_balanced:
  assumes "rocksdb E hist batch" and "\<not> has_flag oflags O_TRUNC"
    and "heap_get h p = Inr n" "ref_cnt n \<noteq> 0"
  shows "\<exists>f h' ctx'. vn_open_file_by_inode E ctx h p oflags = Inr (Some f, ctx, h') \<and>
    heap_get h' p = Inr (n\<lparr>ref_cnt := ref_cnt n + 1\<rparr>) \<and>
    vn_close_file E ctx h' f = Inr (0, ctx', h) \<and> hist (db ctx') = hist (db ctx)"
proof -
  have p: "p \<noteq> 0" using assms(3) by (simp add: heap_get_Inr)
  let ?f = "new_ViveFile\<lparr>fi_no := i_no n, inode := p, noatime := has_flag oflags O_NOATIME\<rparr>"
  let ?h = "heap_set h p (n\<lparr>ref_cnt := ref_cnt n + 1\<rparr>)"
  have "\<not> dirty ?f" by (simp add: new_ViveFile_def)
  from rocksdb.fsync_clean [OF assms(1) this, of ctx ?h] obtain ctx' f' where
    s: "vn_fsync E ctx ?h ?f = Inr (- EIO, ctx', f')" "hist (db ctx') = hist (db ctx)" "inode f' = p" by auto
  have "vn_close_file E ctx ?h ?f = Inr (0, ctx', h)"
    using dec_after_add [OF assms(3,4)] delete_new_file [OF s(3) p, of ?h]
    by (simp add: vn_close_file_def s(1) del: bindR_eq_Inr)
  then show ?thesis using open_plain [OF assms(2,3), of E ctx] s(2) p by auto
qed

theorem open_close_balanced_witness:
  "\<exists>f h' ctx'. vn_open_file_by_inode (mem_ext commit_fault) sample_ctx (sample_heap_of 4) 1 0 = Inr (Some f, sample_ctx, h') \<and>
     vn_close_file (mem_ext commit_fault) sample_ctx h' f = Inr (0, ctx', sample_heap_of 4)"
proof -
  have 1: "\<not> has_flag 0 O_TRUNC" by (simp add: has_flag_def)
  have 2: "ref_cnt (sample_inode_of 4) \<noteq> 0" by (simp add: sample_inode_of_def created_inode_def new_inode_def)
  have 3: "heap_get (sample_heap_of 4) 1 = Inr (sample_inode_of 4)" by simp
  from open_close_balanced [OF mem.rocksdb_axioms 1 3 2, of commit_fault sample_ctx] show ?thesis by blast
qed

text \<open>
  C33: \<open>vn_fsync\<close> never reports success. On a store that reports no failure, syncing a file
  with a modified inode stores the inode record and clears the \<open>dirty\<close> flag, and yet the
  call returns \<open>-EIO\<close>; callers cannot tell a completed sync from a failed one.
\<close>

theorem fsync_reports_failure:
  assumes "rocksdb_reliable E hist batch" and "dirty file" and "heap_get h (inode file) = Inr n"
  shows "\<exists>ctx' file'. vn_fsync E ctx h file = Inr (- EIO, ctx', file') \<and> \<not> dirty file' \<and>
    hist (db ctx') meta_cf = (hist (db ctx) meta_cf)(inode_key (i_no n) := entry_put (inode_bytes n)) \<and>
    hist (db ctx') data_cf = hist (db ctx) data_cf"
  using rocksdb_reliable.fsync_dirty [OF assms, of ctx] by auto

theorem fsync_reports_failure_witness:
  "\<exists>ctx' file'. vn_fsync (mem_ext no_faults) sample_ctx (sample_heap_of 4) (sample_file\<lparr>dirty := True\<rparr>) =
     Inr (- EIO, ctx', file') \<and>
     mem_hist (db ctx') meta_cf (inode_key 12) = entry_put (inode_bytes (sample_inode_of 4))"
proof -
  have "heap_get (sample_heap_of 4) (inode (sample_file\<lparr>dirty := True\<rparr>)) = Inr (sample_inode_of 4)" by simp
  from fsync_reports_failure [OF mem_reliable.rocksdb_reliable_axioms _ this, of sample_ctx] show ?thesis by auto
qed

text \<open>
  C40: opening a missing name with \<open>O_CREAT\<close> creates the file and opens it: the file carries
  the new inode number, its inode is empty and has exactly one reference (the file's), no
  other in-memory inode is touched, and the three metadata entries of the creation are all
  that is stored. Without \<open>O_CREAT\<close> nothing is opened and nothing changes.
\<close>

theorem open_missing_name:
  assumes "rocksdb_reliable E hist batch"
    and "hist (db ctx) meta_cf (printf_ld_s (sint parent_ino) fname) = entry_delete"
    and "\<not> has_flag oflags O_TRUNC" and "\<forall>a. inode_mem env a" and "heap_fresh h"
    and "CHR 0x00 \<notin> set fname" and "unat (inode_seed ctx) < 2 ^ 56"
  shows "if has_flag oflags O_CREAT then
      \<exists>f ctx' h' n. vn_open_file E env ctx h parent_ino fname oflags mode = Inr (Some f, ctx', h') \<and>
        fi_no f = inode_seed ctx \<and> heap_get h' (inode f) = Inr n \<and> i_no n = inode_seed ctx \<and>
        i_size n = 0 \<and> i_mode n = mode \<and> ref_cnt n = 1 \<and>
        (\<forall>a. a \<noteq> inode f \<longrightarrow> cells h' a = cells h a) \<and>
        hist (db ctx') = apply_batch (create_batch parent_ino fname n) (hist (db ctx))
    else vn_open_file E env ctx h parent_ino fname oflags mode = Inr (None, ctx, h)"
proof (cases "has_flag oflags O_CREAT")
  case True
  let ?n = "created_inode env (inode_seed ctx) mode 0 0"
  have "i_size ?n = 0" "i_mode ?n = mode" "ref_cnt ?n = 1"
    by (simp_all add: created_inode_def new_inode_def zero_inode_def)
  with True rocksdb_reliable.open_creates [OF assms(1,2) True assms(3-7), of mode] show ?thesis by auto
next
  case False
  then show ?thesis
    using rocksdb_reliable.get_deleted [OF assms(1,2)] rocksdb.format_printf [OF rocksdb_reliable.axioms(1) [OF assms(1)]]
    by (simp add: vn_open_file_def open_ino_def)
qed

theorem open_missing_name_witness:
  "(\<exists>f ctx' h' n. vn_open_file (mem_ext no_faults) sample_env sample_ctx sample_heap 2 ''a'' O_CREAT 420 =
      Inr (Some f, ctx', h') \<and> fi_no f = 12 \<and> heap_get h' (inode f) = Inr n \<and> ref_cnt n = 1) \<and>
   vn_open_file (mem_ext no_faults) sample_env sample_ctx sample_heap 2 ''a'' 0 420 = Inr (None, sample_ctx, sample_heap)"
proof -
  have fl: "has_flag O_CREAT O_CREAT" "\<not> has_flag O_CREAT O_TRUNC" "\<not> has_flag 0 O_TRUNC" "\<not> has_flag 0 O_CREAT"
    by (simp_all add: has_flag_def O_CREAT_def O_TRUNC_def)
  have h: "mem_hist (db sample_ctx) meta_cf (printf_ld_s (sint (2 :: 64 word)) ''a'') = entry_delete"
    "\<forall>a. inode_mem sample_env a" "CHR 0x00 \<notin> set ''a''" "unat (inode_seed sample_ctx) < 2 ^ 56" by simp_all
  note o = open_missing_name [OF mem_reliable.rocksdb_reliable_axioms h(1) _ h(2) sample_heap_fresh h(3,4), where mode = 420]
  from o [OF fl(2)] obtain f ctx' h' n where
    "vn_open_file (mem_ext no_faults) sample_env sample_ctx sample_heap 2 ''a'' O_CREAT 420 = Inr (Some f, ctx', h')"
    "fi_no f = 12" "heap_get h' (inode f) = Inr n" "ref_cnt n = 1" unfolding if_P [OF fl(1)] by auto
  then show ?thesis using o [OF fl(3)] fl(4) by auto
qed

text \<open>
  C32: two opens of one file do not share an inode, so the stored size can shrink under a
  write. When two open files of one inode number both have size 0 in memory, a write of
  \<open>a\<close> through one and of a shorter, non-empty \<open>b\<close> through the other leaves an inode record of
  size \<open>length b\<close>, although the bytes of \<open>a\<close> beyond it are stored.
\<close>

theorem stale_inode_shrinks_file:
  assumes "rocksdb_reliable E hist batch" and "buf_mem env"
    and "inode f \<noteq> inode g" "fi_no g = fi_no f"
    and "heap_get h (inode f) = Inr n" "i_extent_size n = of_nat VIVEFS_EXTENT_SIZE" "i_no n = fi_no f" "i_size n = 0"
    and "heap_get h (inode g) = Inr m" "i_extent_size m = of_nat VIVEFS_EXTENT_SIZE" "i_no m = fi_no f" "i_size m = 0"
    and "b \<noteq> []" "length b < length a" "int (length a) < 2 ^ 63"
  shows "\<exists>ctx1 h1 f1 ctx2 h2 g2 k.
    vn_write E env ctx h f a (int (length a)) 0 = Inr (int (length a), ctx1, h1, f1) \<and>
    vn_write E env ctx1 h1 g b (int (length b)) 0 = Inr (int (length b), ctx2, h2, g2) \<and>
    hist (db ctx2) meta_cf (inode_key (fi_no f)) = entry_put (inode_bytes k) \<and> uint (i_size k) = int (length b) \<and>
    (\<forall>q. length b \<le> q \<and> q < length a \<longrightarrow> fbyte (hist (db ctx2)) (fi_no f) q = a ! q)"
proof -
  let ?la = "int (length a)" and ?lb = "int (length b)"
  let ?n = "written_inode env n ?la 0" and ?m = "written_inode env m ?lb 0"
  have la: "0 < ?la" "?lb < 2 ^ 63" "0 < ?lb" using assms(13-15) by (auto intro: less_trans)
  from rocksdb_reliable.write_run [OF assms(1,5,6,2), of 0 ?la a ctx] assms(15) obtain d1 where
    1: "vn_write E env ctx h f a ?la 0 = Inr (?la, ctx\<lparr>db := d1\<rparr>, heap_set h (inode f) ?n, f\<lparr>dirty := \<not> uint (i_size n) < ?la\<rparr>)"
      "hist d1 data_cf = apply_batch (write_batch (fi_no f) a ?la 0) (hist (db ctx)) data_cf" by auto
  have g: "heap_get (heap_set h (inode f) ?n) (inode g) = Inr m" using assms(3,9) by simp
  from rocksdb_reliable.write_run [OF assms(1) g assms(10,2), of 0 ?lb b "ctx\<lparr>db := d1\<rparr>"] la obtain d2 h2 g2 where
    2: "vn_write E env (ctx\<lparr>db := d1\<rparr>) (heap_set h (inode f) ?n) g b ?lb 0 = Inr (?lb, ctx\<lparr>db := d2\<rparr>, h2, g2)"
      "hist d2 data_cf = apply_batch (write_batch (fi_no f) b ?lb 0) (hist d1) data_cf"
      "hist d2 meta_cf (inode_key (fi_no f)) = entry_put (inode_bytes ?m)"
    using assms(4,11,12) by auto
  have "fbyte (hist d2) (fi_no f) q = a ! q" if q: "length b \<le> q" "q < length a" for q
  proof -
    have q63: "q < 2 ^ 63" using q(2) assms(15) by simp
    have "fbyte (hist d2) = fbyte (apply_batch (write_batch (fi_no f) b ?lb 0) (hist d1))"
      by (rule fbyte_cong) (rule 2(2))
    then have "fbyte (hist d2) (fi_no f) q = fbyte (hist d1) (fi_no f) q"
      using write_batch_fbyte [of 0 ?lb b q "fi_no f" "hist d1" "fi_no f"] la q q63 by simp
    also have "fbyte (hist d1) = fbyte (apply_batch (write_batch (fi_no f) a ?la 0) (hist (db ctx)))"
      by (rule fbyte_cong) (rule 1(2))
    finally show ?thesis
      using write_batch_fbyte [of 0 ?la a q "fi_no f" "hist (db ctx)" "fi_no f"] assms(15) q q63 by simp
  qed
  moreover have "uint (i_size ?m) = ?lb" using size_written_inode [of 0 ?lb env m] la assms(12) by simp
  ultimately show ?thesis using 1(1) 2(1,3)
    by (intro exI [of _ "ctx\<lparr>db := d1\<rparr>"] exI [of _ "heap_set h (inode f) ?n"] exI [of _ "f\<lparr>dirty := \<not> uint (i_size n) < ?la\<rparr>"]
        exI [of _ "ctx\<lparr>db := d2\<rparr>"] exI [of _ h2] exI [of _ g2] exI [of _ ?m]) simp
qed

definition sample_heap_two :: inode_heap where
  "sample_heap_two = \<lparr>cells = [1 \<mapsto> sample_inode_of 0, 2 \<mapsto> sample_inode_of 0], next_addr = 3\<rparr>"

theorem stale_inode_shrinks_file_witness:
  "\<exists>ctx1 h1 f1 ctx2 h2 g2 k.
     vn_write (mem_ext no_faults) sample_env sample_ctx sample_heap_two sample_file ''ABCD'' 4 0 = Inr (4, ctx1, h1, f1) \<and>
     vn_write (mem_ext no_faults) sample_env ctx1 h1 (sample_file\<lparr>inode := 2\<rparr>) ''x'' 1 0 = Inr (1, ctx2, h2, g2) \<and>
     mem_hist (db ctx2) meta_cf (inode_key 12) = entry_put (inode_bytes k) \<and> uint (i_size k) = 1 \<and>
     fbyte (mem_hist (db ctx2)) 12 3 = CHR ''D''"
proof -
  have h: "heap_get sample_heap_two (inode sample_file) = Inr (sample_inode_of 0)"
    "heap_get sample_heap_two (inode (sample_file\<lparr>inode := 2\<rparr>)) = Inr (sample_inode_of 0)"
    by (simp_all add: sample_heap_two_def heap_get_def)
  from stale_inode_shrinks_file [OF mem_reliable.rocksdb_reliable_axioms sample_env_simps(3) _ _ h(1) _ _ _ h(2),
      of "''x''" "''ABCD''" sample_ctx]
  show ?thesis by fastforce
qed

end
