(* ===== verification/Mount.thy ===== *)
theory Mount
  imports DirOps
begin

text \<open>
  The life cycle of a file system: formatting (\<open>src/src/vn_mkfs.cpp\<close>), mounting, flushing and
  unmounting (\<open>src/src/vn_main.cpp\<close>), and the superblock. The storage below RocksDB and
  the JSON library are a parameter, the record \<open>sys\<close>; the locale \<open>rocksdb_disk\<close> states
  what they document. The lemmas follow the stored metadata through format, mount, unmount
  and remount.
\<close>

section \<open>The superblock\<close>

text \<open>
  JSON values. \<open>JReal\<close> stands for a floating-point number by its integral part, which is all
  that the conversion to an integer keeps.
\<close>

datatype json = JNull | JBool bool | JInt int | JReal int | JStr string | JArr "json list"
  | JObj "(string \<times> json) list"

record ViveSuperBlock =
  magic :: string
  version :: "32 word"

definition VIVEFS_MAGIC_STR :: string where
  "VIVEFS_MAGIC_STR = ''vivefs_0''"

definition VIVEFS_VER :: "32 word" where
  "VIVEFS_VER = 0x00010000"

definition to_json :: "ViveSuperBlock \<Rightarrow> json" where
  "to_json r = JObj [(''magic'', JStr (magic r)), (''version'', JInt (sint (version r)))]"

text \<open>
  \<open>at\<close> and \<open>get_to\<close> throw on a missing member or a wrong type; nothing catches it, so the
  process is terminated.
\<close>

definition json_at :: "json \<Rightarrow> string \<Rightarrow> json result" where
  "json_at j k =
     (case j of JObj kvs \<Rightarrow> (case map_of kvs k of None \<Rightarrow> Inl Fatal | Some v \<Rightarrow> Inr v) | _ \<Rightarrow> Inl Fatal)"

definition get_string :: "json \<Rightarrow> string result" where
  "get_string j = (case j of JStr s \<Rightarrow> Inr s | _ \<Rightarrow> Inl Fatal)"

definition get_int32 :: "json \<Rightarrow> 32 word result" where
  "get_int32 j =
     (case j of JInt i \<Rightarrow> Inr (of_int i) | JReal i \<Rightarrow> Inr (of_int i) | JBool b \<Rightarrow> Inr (of_bool b) | _ \<Rightarrow> Inl Fatal)"

definition from_json :: "json \<Rightarrow> ViveSuperBlock result" where
  "from_json j =
     bindR (bindR (json_at j ''magic'') get_string) (\<lambda>m.
     bindR (bindR (json_at j ''version'') get_int32) (\<lambda>v.
     Inr \<lparr>magic = m, version = v\<rparr>))"

section \<open>The storage below RocksDB\<close>

text \<open>
  \<open>OpenDB\<close> is \<open>TransactionDB::Open\<close> with the column families it is given, on the storage \<open>'w\<close>
  under the path; the database it returns may be the null pointer.
\<close>

record ('db, 'w) sys =
  json_parse :: "string \<Rightarrow> json result"
  json_dump :: "json \<Rightarrow> string"
  CreateFromUri :: status
  OpenDB :: "string \<Rightarrow> cf list \<Rightarrow> 'w \<Rightarrow> status \<times> 'db option \<times> 'w"
  CreateColumnFamily :: "cf \<Rightarrow> 'db \<Rightarrow> 'w \<Rightarrow> status \<times> 'db \<times> 'w"
  FlushMem :: "cf list \<Rightarrow> 'db \<Rightarrow> status \<times> 'db"
  SyncWAL :: "'db \<Rightarrow> status \<times> 'db"
  CancelAllBackgroundWork :: "'db \<Rightarrow> 'db"
  CloseDB :: "'db \<Rightarrow> 'w \<Rightarrow> 'w"

text \<open>The superblock text is read as a C string, up to the first zero byte.\<close>

definition c_str :: "slice \<Rightarrow> string" where
  "c_str buf = takeWhile (\<lambda>c. c \<noteq> CHR 0x00) buf"

definition deserialize_superblock :: "('db, 'w) sys \<Rightarrow> slice \<Rightarrow> ViveSuperBlock result" where
  "deserialize_superblock S buf = bindR (json_parse S (c_str buf)) from_json"

definition serialize_superblock :: "('db, 'w) sys \<Rightarrow> ViveSuperBlock \<Rightarrow> string" where
  "serialize_superblock S sb = json_dump S (to_json sb)"

definition deserialize_int64 :: "slice \<Rightarrow> 64 word result" where
  "deserialize_int64 s = bindR (load_bytes s 0 8) (\<lambda>b. Inr (bytes_word b))"

section \<open>Mounting and unmounting\<close>

text \<open>
  The body of \<open>~ViveFsContext\<close> calls through \<open>db\<close> without testing it. The members go
  next: \<open>root_file\<close>, which is null (no inode) until the mount succeeds, and the embedded
  root inode.
\<close>

definition close_db :: "('db, 'tx) ext \<Rightarrow> ('db, 'w) sys \<Rightarrow> 'db option \<Rightarrow> 'w \<Rightarrow> 'w result" where
  "close_db E S d w =
     (case d of None \<Rightarrow> Inl NullDeref
      | Some d \<Rightarrow> (case FlushWAL E True d of (s, d) \<Rightarrow> Inr (CloseDB S d w)))"

definition delete_ViveFsContext ::
  "('db, 'tx) ext \<Rightarrow> ('db, 'w) sys \<Rightarrow> 'db option \<Rightarrow> ViveFile \<Rightarrow> nat \<Rightarrow> 'w \<Rightarrow> inode_heap \<Rightarrow> ('w \<times> inode_heap) result" where
  "delete_ViveFsContext E S d f p w h =
     bindR (close_db E S d w) (\<lambda>w.
     bindR (delete_ViveFile h f) (\<lambda>h. Inr (w, heap_free h p)))"

definition root_inode_init :: "sysenv \<Rightarrow> ViveInode" where
  "root_inode_init env =
     zero_inode\<lparr>i_no := VN_ROOT_INO, i_mode := 0x41FF, i_links_count := 2, i_size := 4096,
       i_atime := now env, i_ctime := now env, ref_cnt := 1\<rparr>"

text \<open>Returning \<open>NULL\<close> from \<open>vn_mount\<close> runs the guard that deletes the context.\<close>

definition mount_fail ::
  "('db, 'tx) ext \<Rightarrow> ('db, 'w) sys \<Rightarrow> 'db option \<Rightarrow> nat \<Rightarrow> 'w \<Rightarrow> inode_heap \<Rightarrow>
   ('db ViveFsContext option \<times> 'w \<times> inode_heap) result" where
  "mount_fail E S d p w h =
     bindR (delete_ViveFsContext E S d new_ViveFile p w h) (\<lambda>(w, h). Inr (None, w, h))"

definition mount_root_file :: "nat \<Rightarrow> ViveFile" where
  "mount_root_file p = new_ViveFile\<lparr>inode := p, fi_no := VN_ROOT_INO, file_name := ''/''\<rparr>"

definition mount_opened ::
  "('db, 'tx) ext \<Rightarrow> ('db, 'w) sys \<Rightarrow> sysenv \<Rightarrow> string \<Rightarrow> 'db \<Rightarrow> nat \<Rightarrow> 'w \<Rightarrow> inode_heap \<Rightarrow>
   ('db ViveFsContext option \<times> 'w \<times> inode_heap) result" where
  "mount_opened E S env path d p w h =
     (let h = heap_set h p (root_inode_init env) in
      case Get E d meta_cf INODE_SEED_KEY of (s, v) \<Rightarrow>
      if s \<noteq> Ok then mount_fail E S (Some d) p w h
      else bindR (deserialize_int64 v) (\<lambda>seed.
        case Get E d meta_cf SUPERBLOCK_KEY of (s, v) \<Rightarrow>
        if s \<noteq> Ok then mount_fail E S (Some d) p w h
        else bindR (deserialize_superblock S v) (\<lambda>sb.
          if magic sb \<noteq> VIVEFS_MAGIC_STR then mount_fail E S (Some d) p w h
          else if version sb \<noteq> VIVEFS_VER then mount_fail E S (Some d) p w h
          else bindR (vn_add_inode_ref h p) (\<lambda>h.
            Inr (Some \<lparr>db_path = path, db = d, root_inode = p, root_file = mount_root_file p,
              inode_seed = seed, lazy_time = True, relatime = True\<rparr>, w, h)))))"

definition vn_mount ::
  "('db, 'tx) ext \<Rightarrow> ('db, 'w) sys \<Rightarrow> sysenv \<Rightarrow> string \<Rightarrow> 'w \<Rightarrow> inode_heap \<Rightarrow>
   ('db ViveFsContext option \<times> 'w \<times> inode_heap) result" where
  "vn_mount E S env path w h =
     (case heap_alloc h zero_inode of (p, h) \<Rightarrow>
      if CreateFromUri S \<noteq> Ok then mount_fail E S None p w h
      else case OpenDB S path [default_cf, meta_cf, data_cf] w of (s, d, w) \<Rightarrow>
      if s \<noteq> Ok then mount_fail E S d p w h
      else case d of None \<Rightarrow> Inl NullDeref | Some d \<Rightarrow> mount_opened E S env path d p w h)"

definition vn_umount ::
  "('db, 'tx) ext \<Rightarrow> ('db, 'w) sys \<Rightarrow> 'db ViveFsContext \<Rightarrow> 'w \<Rightarrow> inode_heap \<Rightarrow> (int \<times> 'w \<times> inode_heap) result" where
  "vn_umount E S ctx w h =
     (case FlushMem S [meta_cf, data_cf, default_cf] (db ctx) of (s, d) \<Rightarrow>
      case SyncWAL S d of (s, d) \<Rightarrow>
      let d = CancelAllBackgroundWork S d in
      bindR (delete_ViveFsContext E S (Some d) (root_file ctx) (root_inode ctx) w h) (\<lambda>(w, h). Inr (0, w, h)))"

definition vn_flush_fs :: "('db, 'w) sys \<Rightarrow> 'db ViveFsContext \<Rightarrow> int \<times> 'db ViveFsContext" where
  "vn_flush_fs S ctx =
     (case FlushMem S [meta_cf, data_cf, default_cf] (db ctx) of (s, d) \<Rightarrow>
      if s \<noteq> Ok then (- EIO, ctx\<lparr>db := d\<rparr>)
      else case SyncWAL S d of (s, d) \<Rightarrow>
      if s \<noteq> Ok then (- EIO, ctx\<lparr>db := d\<rparr>)
      else (0, ctx\<lparr>db := CancelAllBackgroundWork S d\<rparr>))"

section \<open>Formatting\<close>

text \<open>
  \<open>vn_mkfs_vivefs\<close>. Its context is a local variable, so every return after the database is
  opened runs the destructor; \<open>CHECKED_CALL\<close> exits the process when a call fails.
\<close>

definition fs_superblock :: ViveSuperBlock where
  "fs_superblock = \<lparr>magic = VIVEFS_MAGIC_STR, version = VIVEFS_VER\<rparr>"

definition mkfs_return :: "('db, 'tx) ext \<Rightarrow> ('db, 'w) sys \<Rightarrow> 'db option \<Rightarrow> 'w \<Rightarrow> int \<Rightarrow> (int \<times> 'w) result" where
  "mkfs_return E S d w r = bindR (close_db E S d w) (\<lambda>w. Inr (r, w))"

definition mkfs_opened :: "('db, 'tx) ext \<Rightarrow> ('db, 'w) sys \<Rightarrow> 'db \<Rightarrow> 'w \<Rightarrow> (int \<times> 'w) result" where
  "mkfs_opened E S d w =
     (case CreateColumnFamily S meta_cf d w of (s, d, w) \<Rightarrow>
      if s \<noteq> Ok then mkfs_return E S (Some d) w (- status_code s)
      else case CreateColumnFamily S data_cf d w of (s, d, w) \<Rightarrow>
      if s \<noteq> Ok then mkfs_return E S (Some d) w (- status_code s)
      else let tx = BeginTransaction E d in
      case Put E tx meta_cf SUPERBLOCK_KEY (serialize_superblock S fs_superblock) of (s, tx) \<Rightarrow>
      if s \<noteq> Ok then Inl Fatal
      else case Put E tx meta_cf INODE_SEED_KEY (word_bytes VN_FIRST_USER_INO) of (s, tx) \<Rightarrow>
      if s \<noteq> Ok then Inl Fatal
      else case Commit E tx d of (s, d) \<Rightarrow>
      if s \<noteq> Ok then Inl Fatal
      else case FlushMem S [meta_cf, data_cf] d of (s, d) \<Rightarrow>
      mkfs_return E S (Some d) w 0)"

definition vn_mkfs_vivefs :: "('db, 'tx) ext \<Rightarrow> ('db, 'w) sys \<Rightarrow> string \<Rightarrow> 'w \<Rightarrow> (int \<times> 'w) result" where
  "vn_mkfs_vivefs E S path w =
     (if CreateFromUri S \<noteq> Ok then Inr (- status_code (CreateFromUri S), w)
      else case OpenDB S path [default_cf] w of (s, d, w) \<Rightarrow>
      if s \<noteq> Ok then mkfs_return E S d w (- status_code s)
      else case d of None \<Rightarrow> Inl NullDeref | Some d \<Rightarrow> mkfs_opened E S d w)"

text \<open>The debug mode of the tool opens the database, reads the seed for the log and closes it.\<close>

definition vn_debug_run :: "('db, 'tx) ext \<Rightarrow> ('db, 'w) sys \<Rightarrow> string \<Rightarrow> 'w \<Rightarrow> 'w result" where
  "vn_debug_run E S path w =
     (if CreateFromUri S \<noteq> Ok then close_db E S None w
      else case OpenDB S path [default_cf, meta_cf, data_cf] w of (s, d, w) \<Rightarrow>
      if s \<noteq> Ok then Inl Fatal
      else close_db E S d w)"

definition mkfs_main :: "('db, 'tx) ext \<Rightarrow> ('db, 'w) sys \<Rightarrow> string list \<Rightarrow> 'w \<Rightarrow> (int \<times> 'w) result" where
  "mkfs_main E S argv w =
     (if length argv = 3 \<and> argv ! 1 = ''-d'' then bindR (vn_debug_run E S (argv ! 2) w) (\<lambda>w. Inr (0, w))
      else if length argv \<noteq> 2 \<or> argv ! 1 = ''-h'' \<or> argv ! 1 = ''--help'' then Inr (1, w)
      else vn_mkfs_vivefs E S (argv ! 1) w)"

section \<open>What the storage promises\<close>

text \<open>Text that JSON prints between quotes as it is.\<close>

definition json_plain :: "string \<Rightarrow> bool" where
  "json_plain s \<longleftrightarrow> (\<forall>c\<in>set s. 32 \<le> (of_char c :: nat) \<and> (of_char c :: nat) < 127 \<and> c \<noteq> CHR 0x22 \<and> c \<noteq> CHR 0x5C)"

text \<open>
  A database has a set of column families, empty when there is no database. Opening has to
  name all of them; a missing database is created with the default family only, because
  \<open>create_if_missing\<close> is set and \<open>create_missing_column_families\<close> is not. What has been
  committed and synchronised is there when the database is opened again.
\<close>

locale rocksdb_disk = rocksdb E hist batch
  for E :: "('db, 'tx) ext" and hist :: "'db \<Rightarrow> hist" and batch :: "'tx \<Rightarrow> wop list" +
  fixes S :: "('db, 'w) sys"
    and families :: "'w \<Rightarrow> cf set"
    and content :: "'w \<Rightarrow> hist"
    and synced :: "'db \<Rightarrow> bool"
  assumes json_roundtrip: "json_plain (magic sb) \<Longrightarrow> json_parse S (json_dump S (to_json sb)) = Inr (to_json sb)"
    and json_text: "json_plain (magic sb) \<Longrightarrow> CHR 0x00 \<notin> set (json_dump S (to_json sb))"
    and open_ok: "OpenDB S path cfs w = (Ok, od, w') \<Longrightarrow> \<exists>d'. od = Some d' \<and>
      (if families w = {} then set cfs = {default_cf} \<and> families w' = {default_cf} \<and> hist d' = (\<lambda>_ _. entry_delete)
       else set cfs = families w \<and> families w' = families w \<and> hist d' = content w)"
    and open_fail: "OpenDB S path cfs w = (s, od, w') \<Longrightarrow> s \<noteq> Ok \<Longrightarrow> od = None \<and> families w' = families w \<and> content w' = content w"
    and create_cf: "CreateColumnFamily S c d w = (s, d', w') \<Longrightarrow>
      (if s = Ok then hist d' = (hist d)(c := (\<lambda>_. entry_delete)) \<and> families w' = insert c (families w)
       else hist d' = hist d \<and> families w' = families w)"
    and flush_mem_hist: "FlushMem S cfs d = (s, d') \<Longrightarrow> hist d' = hist d"
    and sync_hist: "SyncWAL S d = (s, d') \<Longrightarrow> hist d' = hist d"
    and cancel_hist: "hist (CancelAllBackgroundWork S d) = hist d"
    and flush_synced: "FlushWAL E True d = (Ok, d') \<Longrightarrow> synced d'"
    and close_content: "synced d \<Longrightarrow> content (CloseDB S d w) = hist d"
    and close_families: "families (CloseDB S d w) = families w"

locale rocksdb_disk_reliable = rocksdb_disk E hist batch S families content synced + rocksdb_reliable E hist batch
  for E :: "('db, 'tx) ext" and hist :: "'db \<Rightarrow> hist" and batch :: "'tx \<Rightarrow> wop list"
    and S :: "('db, 'w) sys" and families :: "'w \<Rightarrow> cf set" and content :: "'w \<Rightarrow> hist" and synced :: "'db \<Rightarrow> bool" +
  assumes env_ok: "CreateFromUri S = Ok"
    and open_succeeds: "set cfs = (if families w = {} then {default_cf} else families w) \<Longrightarrow> fst (OpenDB S path cfs w) = Ok"
    and create_cf_succeeds: "c \<notin> families w \<Longrightarrow> fst (CreateColumnFamily S c d w) = Ok"

section \<open>What the operations do to the stored database\<close>

lemma from_to_json [simp]: "from_json (to_json sb) = Inr sb"
  by (simp add: from_json_def to_json_def json_at_def get_string_def get_int32_def)

lemma root_inode_init_ref [simp]: "ref_cnt (root_inode_init env) = 1"
  by (simp add: root_inode_init_def)

lemma json_plain_magic: "json_plain (magic fs_superblock)"
  by (simp add: json_plain_def fs_superblock_def VIVEFS_MAGIC_STR_def)

lemma delete_null_file [simp]: "delete_ViveFile h new_ViveFile = Inr h"
  by (simp add: delete_ViveFile_def new_ViveFile_def)

lemma close_db_null [simp]: "close_db E S None w = Inl NullDeref"
  by (simp add: close_db_def)

lemma mount_fail_null [simp]: "mount_fail E S None p w h = Inl NullDeref"
  by (simp add: mount_fail_def delete_ViveFsContext_def)

definition mkfs_hist :: "('db, 'w) sys \<Rightarrow> hist" where
  "mkfs_hist S = (\<lambda>_ _. entry_delete)(meta_cf := (\<lambda>_. entry_delete)
     (SUPERBLOCK_KEY := entry_put (serialize_superblock S fs_superblock),
      INODE_SEED_KEY := entry_put (word_bytes VN_FIRST_USER_INO)))"

text \<open>A database that \<open>vn_mount\<close> accepts.\<close>

definition formatted :: "('db, 'w) sys \<Rightarrow> hist \<Rightarrow> 64 word \<Rightarrow> bool" where
  "formatted S H seed \<longleftrightarrow>
     H meta_cf SUPERBLOCK_KEY = entry_put (serialize_superblock S fs_superblock) \<and>
     H meta_cf INODE_SEED_KEY = entry_put (word_bytes seed)"

lemma formatted_mkfs: "formatted S (mkfs_hist S) VN_FIRST_USER_INO"
  by (simp add: formatted_def mkfs_hist_def SUPERBLOCK_KEY_def INODE_SEED_KEY_def)

context rocksdb_disk
begin

lemma superblock_roundtrip: "json_plain (magic sb) \<Longrightarrow> deserialize_superblock S (serialize_superblock S sb) = Inr sb"
proof -
  assume p: "json_plain (magic sb)"
  have "\<forall>c\<in>set (json_dump S (to_json sb)). c \<noteq> CHR 0x00" using json_text [OF p] by blast
  then have "c_str (json_dump S (to_json sb)) = json_dump S (to_json sb)" by (simp add: c_str_def)
  then show ?thesis using json_roundtrip [OF p] by (simp add: deserialize_superblock_def serialize_superblock_def)
qed

lemma close_run: "\<exists>w'. close_db E S (Some d) w = Inr w' \<and> families w' = families w"
  by (auto simp: close_db_def close_families split: prod.splits)

text \<open>A database whose families do not match cannot be opened, on any store.\<close>

lemma open_mismatch:
  assumes "set cfs \<noteq> (if families w = {} then {default_cf} else families w)"
  obtains s w' where "OpenDB S path cfs w = (s, None, w')" and "s \<noteq> Ok"
proof -
  obtain s od w' where o: "OpenDB S path cfs w = (s, od, w')" by (metis prod_cases3)
  have "s \<noteq> Ok" using open_ok [of path cfs w od w'] o assms by (auto split: if_splits)
  then show ?thesis using that o open_fail [OF o] by blast
qed

lemma mount_fail_run:
  "\<exists>w'. mount_fail E S (Some d) p w h = Inr (None, w', heap_free h p) \<and> families w' = families w"
  using close_run [of d w] by (auto simp: mount_fail_def delete_ViveFsContext_def simp del: bindR_eq_Inr)

end

context rocksdb_disk_reliable
begin

lemma close_stored: "\<exists>w'. close_db E S (Some d) w = Inr w' \<and> families w' = families w \<and> content w' = hist d"
proof -
  obtain d1 where 1: "FlushWAL E True d = (Ok, d1)" using flush_succeeds [of True d] by (metis prod.collapse)
  show ?thesis
    using close_content [OF flush_synced [OF 1], of w] flush_hist [OF 1]
    by (simp add: close_db_def 1 close_families)
qed

lemma open_run:
  assumes "set cfs = (if families w = {} then {default_cf} else families w)"
  obtains d w' where "OpenDB S path cfs w = (Ok, Some d, w')"
    and "families w' = set cfs" and "hist d = (if families w = {} then (\<lambda>_ _. entry_delete) else content w)"
proof -
  obtain s od w' where o: "OpenDB S path cfs w = (s, od, w')" by (metis prod_cases3)
  moreover have "s = Ok" using open_succeeds [OF assms, of path] o by simp
  ultimately show ?thesis using that open_ok [of path cfs w od w'] by (cases "families w = {}") auto
qed

lemma create_cf_run:
  assumes "c \<notin> families w"
  obtains d' w' where "CreateColumnFamily S c d w = (Ok, d', w')"
    and "hist d' = (hist d)(c := (\<lambda>_. entry_delete))" and "families w' = insert c (families w)"
proof -
  obtain s d' w' where o: "CreateColumnFamily S c d w = (s, d', w')" by (metis prod_cases3)
  moreover have "s = Ok" using create_cf_succeeds [OF assms, of d] o by simp
  ultimately show ?thesis using that create_cf [OF o] by auto
qed

lemma mkfs_run:
  assumes "families w = {}"
  shows "\<exists>w'. vn_mkfs_vivefs E S path w = Inr (0, w') \<and> families w' = UNIV \<and> content w' = mkfs_hist S"
proof -
  have "set [default_cf] = (if families w = {} then {default_cf} else families w)" using assms by simp
  then obtain d1 w1 where 1: "OpenDB S path [default_cf] w = (Ok, Some d1, w1)" "families w1 = {default_cf}"
    "hist d1 = (\<lambda>_ _. entry_delete)" using assms by (elim open_run) auto
  have "meta_cf \<notin> families w1" using 1(2) by simp
  then obtain d2 w2 where 2: "CreateColumnFamily S meta_cf d1 w1 = (Ok, d2, w2)"
    "hist d2 = (hist d1)(meta_cf := (\<lambda>_. entry_delete))" "families w2 = insert meta_cf (families w1)"
    by (rule create_cf_run)
  have "data_cf \<notin> families w2" using 1(2) 2(3) by simp
  then obtain d3 w3 where 3: "CreateColumnFamily S data_cf d2 w2 = (Ok, d3, w3)"
    "hist d3 = (hist d2)(data_cf := (\<lambda>_. entry_delete))" "families w3 = insert data_cf (families w2)"
    by (rule create_cf_run)
  let ?t = "BeginTransaction E d3" and ?sb = "serialize_superblock S fs_superblock"
  obtain t1 where 4: "Put E ?t meta_cf SUPERBLOCK_KEY ?sb = (Ok, t1)" "batch t1 = batch ?t @ [WPut meta_cf SUPERBLOCK_KEY ?sb]"
    using put_ok by blast
  obtain t2 where 5: "Put E t1 meta_cf INODE_SEED_KEY (word_bytes VN_FIRST_USER_INO) = (Ok, t2)"
    "batch t2 = batch t1 @ [WPut meta_cf INODE_SEED_KEY (word_bytes VN_FIRST_USER_INO)]" using put_ok by blast
  obtain d4 where 6: "Commit E t2 d3 = (Ok, d4)" "hist d4 = apply_batch (batch t2) (hist d3)" using commit_ok by blast
  obtain s5 d5 where 7: "FlushMem S [meta_cf, data_cf] d4 = (s5, d5)" by force
  obtain w' where 8: "close_db E S (Some d5) w3 = Inr w'" "families w' = families w3" "content w' = hist d5"
    using close_stored by blast
  have "families w' = UNIV" using 8(2) 3(3) 2(3) 1(2) by (auto intro: cf.exhaust)
  moreover have "content w' = mkfs_hist S"
    using 8(3) flush_mem_hist [OF 7] 6(2) 5(2) 4(2) 3(2) 2(2) 1(3)
    by (simp add: mkfs_hist_def begin_empty fun_eq_iff)
  moreover have "vn_mkfs_vivefs E S path w = Inr (0, w')"
    by (simp add: vn_mkfs_vivefs_def mkfs_opened_def Let_def env_ok 1(1) 2(1) 3(1) 4(1) 5(1) 6(1) 7 mkfs_return_def 8(1)
        del: bindR_eq_Inr)
  ultimately show ?thesis by blast
qed

lemma mount_run:
  assumes "families w = UNIV" and "formatted S (content w) seed" and "next_addr h \<noteq> 0"
  shows "\<exists>d w' h'. vn_mount E S env path w h =
      Inr (Some \<lparr>db_path = path, db = d, root_inode = next_addr h, root_file = mount_root_file (next_addr h),
        inode_seed = seed, lazy_time = True, relatime = True\<rparr>, w', h') \<and>
    hist d = content w \<and> families w' = UNIV \<and> next_addr h' = Suc (next_addr h) \<and>
    cells h' = (cells h)(next_addr h := Some ((root_inode_init env)\<lparr>ref_cnt := 2\<rparr>))"
proof -
  have all: "set [default_cf, meta_cf, data_cf] = UNIV" by (auto intro: cf.exhaust)
  then have "set [default_cf, meta_cf, data_cf] = (if families w = {} then {default_cf} else families w)"
    using assms(1) by auto
  then obtain d w1 where 1: "OpenDB S path [default_cf, meta_cf, data_cf] w = (Ok, Some d, w1)" "families w1 = UNIV" "hist d = content w"
    using assms(1) all by (elim open_run) auto
  note f = assms(2) [unfolded formatted_def, folded 1(3)]
  let ?p = "next_addr h" and ?r = "root_inode_init env"
  let ?h = "heap_set (snd (heap_alloc h zero_inode)) ?p ?r"
  have p: "heap_get ?h ?p = Inr ?r" using assms(3) by simp
  let ?h' = "heap_set (snd (heap_alloc h zero_inode)) ?p (?r\<lparr>ref_cnt := 2\<rparr>)"
  have r: "vn_add_inode_ref ?h ?p = Inr ?h'" by (simp add: vn_add_inode_ref_def p)
  have sb: "deserialize_superblock S (serialize_superblock S fs_superblock) = Inr fs_superblock"
    by (rule superblock_roundtrip [OF json_plain_magic])
  have al: "heap_alloc h zero_inode = (?p, snd (heap_alloc h zero_inode))" by (simp add: heap_alloc_def)
  have "mount_opened E S env path d ?p w1 (snd (heap_alloc h zero_inode)) =
      Inr (Some \<lparr>db_path = path, db = d, root_inode = ?p, root_file = mount_root_file ?p,
        inode_seed = seed, lazy_time = True, relatime = True\<rparr>, w1, ?h')"
    using get_put [OF f [THEN conjunct1]] get_put [OF f [THEN conjunct2]] sb r
    by (simp add: mount_opened_def Let_def deserialize_int64_def load_bytes_def fs_superblock_def del: bindR_eq_Inr)
  then have "vn_mount E S env path w h =
      Inr (Some \<lparr>db_path = path, db = d, root_inode = ?p, root_file = mount_root_file ?p,
        inode_seed = seed, lazy_time = True, relatime = True\<rparr>, w1, ?h')"
    by (subst vn_mount_def, subst al) (simp add: env_ok 1(1))
  moreover have "cells ?h' = (cells h)(?p := Some (?r\<lparr>ref_cnt := 2\<rparr>))" "next_addr ?h' = Suc ?p"
    by (simp_all add: heap_alloc_def)
  ultimately show ?thesis using 1(2,3) by blast
qed

lemma umount_run:
  assumes "root_file ctx = mount_root_file (root_inode ctx)" and "heap_get h (root_inode ctx) = Inr n" and "ref_cnt n \<noteq> 1"
  shows "\<exists>w' h'. vn_umount E S ctx w h = Inr (0, w', h') \<and> families w' = families w \<and> content w' = hist (db ctx) \<and>
    next_addr h' = next_addr h \<and> cells h' = (cells h)(root_inode ctx := None)"
proof -
  let ?p = "root_inode ctx"
  obtain s1 d1 where 1: "FlushMem S [meta_cf, data_cf, default_cf] (db ctx) = (s1, d1)" by force
  obtain s2 d2 where 2: "SyncWAL S d1 = (s2, d2)" by force
  let ?d = "CancelAllBackgroundWork S d2"
  obtain w' where 3: "close_db E S (Some ?d) w = Inr w'" "families w' = families w" "content w' = hist ?d"
    using close_stored by blast
  have p: "?p \<noteq> 0" using assms(2) by (simp add: heap_get_Inr)
  have "ref_cnt n - 1 \<noteq> 0" using assms(3) by simp
  then have "delete_ViveFile h (root_file ctx) = Inr (heap_set h ?p (n\<lparr>ref_cnt := ref_cnt n - 1\<rparr>))"
    using assms(1,2) p by (simp add: delete_ViveFile_def mount_root_file_def vn_dec_inode_ref_def del: bindR_eq_Inr)
  then have "vn_umount E S ctx w h = Inr (0, w', heap_free h ?p)"
    by (simp add: vn_umount_def 1 2 Let_def delete_ViveFsContext_def 3(1) del: bindR_eq_Inr)
  moreover have "hist ?d = hist (db ctx)" using cancel_hist flush_mem_hist [OF 1] sync_hist [OF 2] by simp
  ultimately show ?thesis using 3(2,3) by (simp add: heap_free_def)
qed

end

section \<open>An in-memory disk\<close>

text \<open>
  The instance: the names of the column families and the closed database. Its JSON reads and
  writes superblocks only.
\<close>

type_synonym memdisk = "cf list \<times> memdb"

definition mem_head :: string where
  "mem_head = CHR ''{'' # CHR 0x22 # ''magic'' @ [CHR 0x22, CHR '':'', CHR 0x22]"

definition mem_mid :: string where
  "mem_mid = CHR 0x22 # CHR '','' # CHR 0x22 # ''version'' @ [CHR 0x22, CHR '':'']"

definition mem_dump :: "json \<Rightarrow> string" where
  "mem_dump j = (case j of JObj [(_, JStr m), (_, JInt v)] \<Rightarrow> mem_head @ m @ mem_mid @ printf_ld v @ ''}'' | _ \<Rightarrow> ''null'')"

definition scan_ld :: "string \<Rightarrow> int" where
  "scan_ld s = (case s of [] \<Rightarrow> 0 | c # cs \<Rightarrow> if c = CHR ''-'' then - int (undec cs) else int (undec s))"

definition mem_parse :: "string \<Rightarrow> json result" where
  "mem_parse s =
     (let r = drop (length mem_head) s; m = takeWhile (\<lambda>c. c \<noteq> CHR 0x22) r; v = drop (length m + length mem_mid) r in
      if s = mem_head @ m @ mem_mid @ v then
        Inr (JObj [(''magic'', JStr m), (''version'', JInt (scan_ld (butlast v)))])
      else Inl Fatal)"

definition mem_sys :: "(memdb, memdisk) sys" where
  "mem_sys =
     \<lparr>json_parse = mem_parse, json_dump = mem_dump, CreateFromUri = Ok,
      OpenDB = (\<lambda>_ cfs (fs, m).
        if fs = [] then (if set cfs = {default_cf} then (Ok, Some [], ([default_cf], m)) else (Err 4, None, (fs, m)))
        else if set cfs = set fs then (Ok, Some m, (fs, m)) else (Err 4, None, (fs, m))),
      CreateColumnFamily = (\<lambda>c d (fs, m).
        if c \<in> set fs then (Err 4, d, (fs, m)) else (Ok, filter (\<lambda>e. fst (fst e) \<noteq> c) d, (c # fs, m))),
      FlushMem = (\<lambda>_ d. (Ok, d)), SyncWAL = (\<lambda>d. (Ok, d)), CancelAllBackgroundWork = (\<lambda>d. d),
      CloseDB = (\<lambda>d (fs, m). (fs, d))\<rparr>"

definition mem_families :: "memdisk \<Rightarrow> cf set" where
  "mem_families w = set (fst w)"

definition mem_content :: "memdisk \<Rightarrow> hist" where
  "mem_content w = mem_hist (snd w)"

lemma scan_printf [simp]: "scan_ld (printf_ld i) = i"
proof (cases "i < 0")
  case False
  obtain c cs where c: "dec_nat (nat i) = c # cs" by (cases "dec_nat (nat i)") simp_all
  then have "c \<noteq> CHR ''-''" using hd_dec_nat [of "nat i"] by auto
  then show ?thesis using False c undec_dec_nat [of "nat i"] by (simp add: scan_ld_def printf_ld_def)
qed (simp add: scan_ld_def printf_ld_def)

lemma mem_parse_dump: "CHR 0x22 \<notin> set m \<Longrightarrow> mem_parse (mem_dump (JObj [(''magic'', JStr m), (''version'', JInt v)])) =
    Inr (JObj [(''magic'', JStr m), (''version'', JInt v)])"
proof -
  assume "CHR 0x22 \<notin> set m"
  then have "takeWhile (\<lambda>c. c \<noteq> CHR 0x22) (m @ mem_mid @ printf_ld v @ ''}'') = m"
    by (subst takeWhile_append2) (auto simp: mem_mid_def)
  then show ?thesis by (simp add: mem_parse_def mem_dump_def Let_def butlast_append)
qed

lemma mem_dump_text: "CHR 0x00 \<notin> set m \<Longrightarrow> CHR 0x00 \<notin> set (mem_dump (JObj [(k, JStr m), (l, JInt v)]))"
proof -
  assume m: "CHR 0x00 \<notin> set m"
  have "CHR 0x00 \<notin> digits" using of_char_digit by fastforce
  then have "CHR 0x00 \<notin> set (printf_ld v)" by (simp add: printf_ld_def dec_nat_not_digit)
  with m show ?thesis by (simp add: mem_dump_def mem_head_def mem_mid_def)
qed

lemma mem_sys_simps [simp]:
  "json_parse mem_sys = mem_parse" "json_dump mem_sys = mem_dump" "CreateFromUri mem_sys = Ok"
  "OpenDB mem_sys path cfs (fs, m) =
     (if fs = [] then (if set cfs = {default_cf} then (Ok, Some [], ([default_cf], m)) else (Err 4, None, (fs, m)))
      else if set cfs = set fs then (Ok, Some m, (fs, m)) else (Err 4, None, (fs, m)))"
  "CreateColumnFamily mem_sys c d (fs, m) =
     (if c \<in> set fs then (Err 4, d, (fs, m)) else (Ok, filter (\<lambda>e. fst (fst e) \<noteq> c) d, (c # fs, m)))"
  "FlushMem mem_sys cfs d = (Ok, d)" "SyncWAL mem_sys d = (Ok, d)" "CancelAllBackgroundWork mem_sys d = d"
  "CloseDB mem_sys d (fs, m) = (fs, d)"
  by (simp_all add: mem_sys_def)

lemma mem_hist_filter: "mem_hist (filter (\<lambda>e. fst (fst e) \<noteq> c) d) = (mem_hist d)(c := (\<lambda>_. entry_delete))"
proof -
  have "map_of (filter (\<lambda>e. fst (fst e) \<noteq> c) d) (c', k) = (if c' = c then None else map_of d (c', k))" for c' k
    by (induction d) auto
  then show ?thesis by (auto simp: fun_eq_iff mem_hist_def)
qed

lemma of_char_Char_zero: "(of_char (CHR 0x00) :: nat) = 0"
  by simp

lemma json_plain_text: "json_plain m \<Longrightarrow> CHR 0x22 \<notin> set m \<and> CHR 0x00 \<notin> set m"
proof -
  assume m: "json_plain m"
  then have "\<forall>c\<in>set m. c \<noteq> CHR 0x22" unfolding json_plain_def by blast
  moreover have "\<forall>c\<in>set m. 32 \<le> (of_char c :: nat)" using m unfolding json_plain_def by blast
  then have "CHR 0x00 \<notin> set m" by (metis (full_types) of_char_Char_zero not_numeral_le_zero)
  ultimately show ?thesis by blast
qed

interpretation mem_disk: rocksdb_disk "mem_ext F" mem_hist "\<lambda>t. t" mem_sys mem_families mem_content "\<lambda>_. True"
proof unfold_locales
  show "OpenDB mem_sys path cfs w = (Ok, od, w') \<Longrightarrow> \<exists>d'. od = Some d' \<and>
      (if mem_families w = {} then set cfs = {default_cf} \<and> mem_families w' = {default_cf} \<and> mem_hist d' = (\<lambda>_ _. entry_delete)
       else set cfs = mem_families w \<and> mem_families w' = mem_families w \<and> mem_hist d' = mem_content w)" for path cfs w od w'
    by (cases w) (auto simp: mem_families_def mem_content_def fun_eq_iff split: if_splits)
  show "OpenDB mem_sys path cfs w = (s, od, w') \<Longrightarrow> s \<noteq> Ok \<Longrightarrow>
      od = None \<and> mem_families w' = mem_families w \<and> mem_content w' = mem_content w" for path cfs w s od w'
    by (cases w) (auto split: if_splits)
  show "CreateColumnFamily mem_sys c d w = (s, d', w') \<Longrightarrow>
      (if s = Ok then mem_hist d' = (mem_hist d)(c := (\<lambda>_. entry_delete)) \<and> mem_families w' = insert c (mem_families w)
       else mem_hist d' = mem_hist d \<and> mem_families w' = mem_families w)" for c d w s d' w'
    by (cases w) (auto simp: mem_families_def mem_hist_filter split: if_splits)
  show "mem_content (CloseDB mem_sys d w) = mem_hist d" "mem_families (CloseDB mem_sys d w) = mem_families w" for d w
    by (cases w; simp add: mem_content_def mem_families_def)+
  show "json_plain (magic sb) \<Longrightarrow> json_parse mem_sys (json_dump mem_sys (to_json sb)) = Inr (to_json sb)"
    "json_plain (magic sb) \<Longrightarrow> CHR 0x00 \<notin> set (json_dump mem_sys (to_json sb))" for sb
    by (simp_all add: to_json_def mem_parse_dump mem_dump_text json_plain_text)
qed simp_all

interpretation mem_disk_reliable:
  rocksdb_disk_reliable "mem_ext no_faults" mem_hist "\<lambda>t. t" mem_sys mem_families mem_content "\<lambda>_. True"
proof unfold_locales
  show "set cfs = (if mem_families w = {} then {default_cf} else mem_families w) \<Longrightarrow> fst (OpenDB mem_sys path cfs w) = Ok"
    for cfs w path
    by (cases w) (auto simp: mem_families_def)
  show "c \<notin> mem_families w \<Longrightarrow> fst (CreateColumnFamily mem_sys c d w) = Ok" for c w d
    by (cases w) (simp add: mem_families_def)
qed simp

section \<open>Properties\<close>

lemma mkfs_hist_names [simp]: "mkfs_hist S meta_cf (printf_ld_s i nm) = entry_delete"
  by (simp add: mkfs_hist_def)

lemma mkfs_hist_inodes [simp]: "mkfs_hist S meta_cf (inode_key ino) = entry_delete"
  by (simp add: mkfs_hist_def)

text \<open>
  C19: running \<open>mkfs.vn\<close> on an empty volume and mounting it succeeds, on storage that reports
  no failure. The mounted file system hands out inode numbers from 12 on, its root inode is
  directory 2 with one reference of the context and one of the root file, and no directory
  has an entry.
\<close>

theorem format_then_mount:
  assumes "rocksdb_disk_reliable E hist batch S families content synced"
    and "families w = {}" and "next_addr h \<noteq> 0" and "path \<notin> {''-h'', ''--help''}"
  shows "\<exists>w1 ctx w2 h' r. mkfs_main E S [prog, path] w = Inr (0, w1) \<and>
    vn_mount E S env path w1 h = Inr (Some ctx, w2, h') \<and> db_path ctx = path \<and>
    inode_seed ctx = VN_FIRST_USER_INO \<and>
    heap_get h' (vn_get_root_inode ctx) = Inr r \<and> i_no r = VN_ROOT_INO \<and> i_mode r = 0x41FF \<and> ref_cnt r = 2 \<and>
    vn_ino_of_file (root_file ctx) = 2 \<and>
    (\<forall>dir name want. vn_lookup_inode_no E env ctx h' dir name want = Inr (-1, 0, h')) \<and>
    hist (db ctx) data_cf = (\<lambda>_. entry_delete)"
proof -
  note R = assms(1)
  have rel: "rocksdb_reliable E hist batch" using R by (rule rocksdb_disk_reliable.axioms(2))
  from rocksdb_disk_reliable.mkfs_run [OF R assms(2), of path] obtain w1 where
    1: "vn_mkfs_vivefs E S path w = Inr (0, w1)" "families w1 = UNIV" "content w1 = mkfs_hist S" by blast
  have "formatted S (content w1) VN_FIRST_USER_INO" using formatted_mkfs [of S] 1(3) by simp
  from rocksdb_disk_reliable.mount_run [OF R 1(2) this assms(3), of env path] obtain d w2 h' where
    2: "vn_mount E S env path w1 h = Inr (Some \<lparr>db_path = path, db = d, root_inode = next_addr h,
        root_file = mount_root_file (next_addr h), inode_seed = VN_FIRST_USER_INO, lazy_time = True, relatime = True\<rparr>, w2, h')"
      "hist d = mkfs_hist S" "cells h' = (cells h)(next_addr h := Some ((root_inode_init env)\<lparr>ref_cnt := 2\<rparr>))"
    using 1(3) by auto
  let ?ctx = "\<lparr>db_path = path, db = d, root_inode = next_addr h, root_file = mount_root_file (next_addr h),
    inode_seed = VN_FIRST_USER_INO, lazy_time = True, relatime = True\<rparr>" and ?r = "(root_inode_init env)\<lparr>ref_cnt := 2\<rparr>"
  have "vn_lookup_inode_no E env ?ctx h' dir name want = Inr (-1, 0, h')" for dir name want
    by (rule rocksdb_reliable.lookup_absent [OF rel]) (simp add: 2(2))
  moreover have "heap_get h' (next_addr h) = Inr ?r" using 2(3) assms(3) by (simp add: heap_get_def)
  moreover have "vn_ino_of_file (mount_root_file (next_addr h)) = 2"
    by (simp add: vn_ino_of_file_def mount_root_file_def VN_ROOT_INO_def)
  moreover have "i_no ?r = VN_ROOT_INO" "i_mode ?r = 0x41FF" "ref_cnt ?r = 2" by (simp_all add: root_inode_init_def)
  moreover have "mkfs_hist S data_cf = (\<lambda>_. entry_delete)" by (simp add: mkfs_hist_def)
  moreover have "mkfs_main E S [prog, path] w = Inr (0, w1)" using assms(4) 1(1) by (simp add: mkfs_main_def)
  ultimately show ?thesis using 2(1,2)
    by (intro exI [of _ w1] exI [of _ ?ctx] exI [of _ w2] exI [of _ h'] exI [of _ ?r]) (simp add: vn_get_root_inode_def)
qed

theorem format_then_mount_witness:
  "\<exists>w1 ctx w2 h'. mkfs_main (mem_ext no_faults) mem_sys [''mkfs.vn'', ''vol''] ([], []) = Inr (0, w1) \<and>
     vn_mount (mem_ext no_faults) mem_sys sample_env ''vol'' w1 sample_heap = Inr (Some ctx, w2, h') \<and> inode_seed ctx = 12"
proof -
  have "mem_families ([], []) = {}" by (simp add: mem_families_def)
  from format_then_mount [OF mem_disk_reliable.rocksdb_disk_reliable_axioms this, of sample_heap "''vol''" "''mkfs.vn''" sample_env]
  show ?thesis by (auto simp: VN_FIRST_USER_INO_def)
qed

text \<open>
  C18: what is created before an unmount is there after the next mount. On storage that
  reports no failure, creating a file, unmounting and mounting again gives a file system
  with the same contents that finds the file under its inode number and continues with the
  next one; unmounting returns 0 and frees the root inode.
\<close>

theorem create_survives_remount:
  assumes "rocksdb_disk_reliable E hist batch S families content synced"
    and "families w = UNIV" and "formatted S (hist (db ctx)) (inode_seed ctx)"
    and "root_file ctx = mount_root_file (root_inode ctx)" and "root_inode ctx < next_addr h"
    and "heap_get h (root_inode ctx) = Inr r" and "ref_cnt r = 2" and "\<forall>a. inode_mem env a" and "heap_fresh h0"
    and "hist (db ctx) meta_cf (printf_ld_s (sint dir) name) = entry_delete"
    and "CHR 0x00 \<notin> set name" and "unat (inode_seed ctx) < 2 ^ 56"
  shows "\<exists>p ctx1 h1 w2 h2 ctx3 w3 h3 h4.
    vn_create_file E env ctx h dir name mode uid gid True = Inr (sint (inode_seed ctx), p, ctx1, h1) \<and>
    vn_umount E S ctx1 w h1 = Inr (0, w2, h2) \<and> cells h2 (root_inode ctx) = None \<and>
    vn_mount E S env path w2 h0 = Inr (Some ctx3, w3, h3) \<and>
    hist (db ctx3) = hist (db ctx1) \<and> inode_seed ctx3 = inode_seed ctx + 1 \<and>
    vn_lookup_inode_no E env ctx3 h3 dir name False = Inr (sint (inode_seed ctx), 0, h4)"
proof -
  note R = assms(1)
  have rel: "rocksdb_reliable E hist batch" using R by (rule rocksdb_disk_reliable.axioms(2))
  let ?n = "created_inode env (inode_seed ctx) mode uid gid" and ?p = "next_addr h"
  have p: "?p \<noteq> 0" and mem: "inode_mem env ?p" using assms(5,8) by auto
  from rocksdb_reliable.create_run [OF rel mem p assms(10), of mode uid gid True] obtain d1 where
    1: "vn_create_file E env ctx h dir name mode uid gid True =
        Inr (sint (inode_seed ctx), ?p, ctx\<lparr>inode_seed := inode_seed ctx + 1, db := d1\<rparr>, snd (heap_alloc h ?n))"
      "hist d1 = apply_batch (create_batch dir name ?n) (hist (db ctx))" by auto
  let ?c = "ctx\<lparr>inode_seed := inode_seed ctx + 1, db := d1\<rparr>" and ?h = "snd (heap_alloc h ?n)"
  have u: "unat (i_no ?n) < 2 ^ 56" using assms(12) by simp
  note b = apply_create_batch [OF assms(11) u, where parent_ino = dir and H = "hist (db ctx)", folded 1(2)]
  have "heap_get ?h (root_inode ?c) = Inr r" using assms(5,6) by (simp add: heap_alloc_def heap_get_Inr)
  moreover have "root_file ?c = mount_root_file (root_inode ?c)" "ref_cnt r \<noteq> 1" using assms(4,7) by simp_all
  ultimately obtain w2 h2 where
    2: "vn_umount E S ?c w ?h = Inr (0, w2, h2)" "families w2 = UNIV" "content w2 = hist d1" "cells h2 (root_inode ctx) = None"
    using rocksdb_disk_reliable.umount_run [OF R, of ?c ?h r w] assms(2) by auto
  have "formatted S (content w2) (inode_seed ctx + 1)"
    using assms(3) b(3) b(4) [of SUPERBLOCK_KEY] 2(3) by (simp add: formatted_def)
  from rocksdb_disk_reliable.mount_run [OF R 2(2) this, of h0 env path] assms(9) obtain ctx3 w3 h3 where
    3: "vn_mount E S env path w2 h0 = Inr (Some ctx3, w3, h3)" "hist (db ctx3) = hist d1" "inode_seed ctx3 = inode_seed ctx + 1"
    "next_addr h3 \<noteq> 0" using 2(3) by (auto simp: heap_fresh_def)
  have "vn_lookup_inode_no E env ctx3 h3 dir name False = Inr (sint (inode_seed ctx), 0, h3)"
    by (rule rocksdb_reliable.lookup_present(2) [OF rel, where n = ?n]) (use b(1,2) 3(2,4) assms(8) in simp_all)
  then show ?thesis using 1(1) 2(1,4) 3(1,2,3)
    by (intro exI [of _ ?p] exI [of _ ?c] exI [of _ ?h] exI [of _ w2] exI [of _ h2] exI [of _ ctx3] exI [of _ w3]
        exI [of _ h3]) simp
qed

definition sample_mounted :: "memdb ViveFsContext" where
  "sample_mounted = \<lparr>db_path = ''vol'', db = [((meta_cf, SUPERBLOCK_KEY), entry_put (serialize_superblock mem_sys fs_superblock)),
     ((meta_cf, INODE_SEED_KEY), entry_put (word_bytes (12 :: 64 word)))], root_inode = 1, root_file = mount_root_file 1,
     inode_seed = 12, lazy_time = True, relatime = True\<rparr>"

definition sample_mount_heap :: inode_heap where
  "sample_mount_heap = \<lparr>cells = [1 \<mapsto> (root_inode_init sample_env)\<lparr>ref_cnt := 2\<rparr>], next_addr = 2\<rparr>"

lemma sample_mounted_hist:
  "formatted mem_sys (mem_hist (db sample_mounted)) 12" "mem_hist (db sample_mounted) meta_cf (printf_ld_s i nm) = entry_delete"
  by (simp_all add: formatted_def sample_mounted_def mem_hist_def)

theorem create_survives_remount_witness:
  "\<exists>p ctx1 h1 w2 h2 ctx3 w3 h3 h4.
     vn_create_file (mem_ext no_faults) sample_env sample_mounted sample_mount_heap 2 ''a'' 420 0 0 True = Inr (12, p, ctx1, h1) \<and>
     vn_umount (mem_ext no_faults) mem_sys ctx1 ([default_cf, meta_cf, data_cf], []) h1 = Inr (0, w2, h2) \<and>
     vn_mount (mem_ext no_faults) mem_sys sample_env ''vol'' w2 sample_heap = Inr (Some ctx3, w3, h3) \<and>
     inode_seed ctx3 = 13 \<and> vn_lookup_inode_no (mem_ext no_faults) sample_env ctx3 h3 2 ''a'' False = Inr (12, 0, h4)"
proof -
  have f: "mem_families ([default_cf, meta_cf, data_cf], []) = UNIV" by (auto simp: mem_families_def intro: cf.exhaust)
  have s: "inode_seed sample_mounted = 12" "root_file sample_mounted = mount_root_file (root_inode sample_mounted)"
    "root_inode sample_mounted < next_addr sample_mount_heap"
    "heap_get sample_mount_heap (root_inode sample_mounted) = Inr ((root_inode_init sample_env)\<lparr>ref_cnt := 2\<rparr>)"
    by (simp_all add: sample_mounted_def sample_mount_heap_def heap_get_def)
  note t = create_survives_remount [OF mem_disk_reliable.rocksdb_disk_reliable_axioms f sample_mounted_hist(1) [folded s(1)] s(2-4)
      _ _ sample_heap_fresh sample_mounted_hist(2), where env = sample_env and dir = 2 and name = "''a''" and mode = 420 and
      uid = 0 and gid = 0 and path = "''vol''"]
  show ?thesis using t by (force simp: s(1))
qed

text \<open>
  C35: a failed open is not survived. On every store, whenever the environment cannot be created
  or \<open>TransactionDB::Open\<close> reports an error, whatever its cause, \<open>vn_mount\<close> ends in a null pointer
  access instead of returning \<open>NULL\<close>: the destructor of the context calls through the null
  database. So does \<open>vn_mkfs_vivefs\<close> whenever its open fails (it returns an error code when
  the environment cannot be created). Mounting a volume that holds no database and
  formatting one that is formatted already are such failures.
\<close>

theorem failed_open_crashes:
  assumes "rocksdb_disk E hist batch S families content synced"
  shows "(CreateFromUri S \<noteq> Ok \<or> fst (OpenDB S path [default_cf, meta_cf, data_cf] w) \<noteq> Ok \<longrightarrow>
      vn_mount E S env path w h = Inl NullDeref) \<and>
    (CreateFromUri S = Ok \<and> fst (OpenDB S path [default_cf] w) \<noteq> Ok \<longrightarrow> vn_mkfs_vivefs E S path w = Inl NullDeref) \<and>
    (families w = {} \<longrightarrow> fst (OpenDB S path [default_cf, meta_cf, data_cf] w) \<noteq> Ok) \<and>
    (families w = UNIV \<longrightarrow> fst (OpenDB S path [default_cf] w) \<noteq> Ok)"
proof (intro conjI impI)
  assume e: "CreateFromUri S \<noteq> Ok \<or> fst (OpenDB S path [default_cf, meta_cf, data_cf] w) \<noteq> Ok"
  show "vn_mount E S env path w h = Inl NullDeref"
    using e rocksdb_disk.open_fail [OF assms, of path "[default_cf, meta_cf, data_cf]" w]
    by (cases "OpenDB S path [default_cf, meta_cf, data_cf] w") (auto simp: vn_mount_def split: prod.split)
next
  assume e: "CreateFromUri S = Ok \<and> fst (OpenDB S path [default_cf] w) \<noteq> Ok"
  show "vn_mkfs_vivefs E S path w = Inl NullDeref"
    using e rocksdb_disk.open_fail [OF assms, of path "[default_cf]" w]
    by (cases "OpenDB S path [default_cf] w") (auto simp: vn_mkfs_vivefs_def mkfs_return_def)
next
  assume e: "families w = {}"
  have "set [default_cf, meta_cf, data_cf] \<noteq> (if families w = {} then {default_cf} else families w)" using e by simp
  then obtain s w' where "OpenDB S path [default_cf, meta_cf, data_cf] w = (s, None, w')" "s \<noteq> Ok"
    by (rule rocksdb_disk.open_mismatch [OF assms])
  then show "fst (OpenDB S path [default_cf, meta_cf, data_cf] w) \<noteq> Ok" by simp
next
  assume e: "families w = UNIV"
  have "set [default_cf] \<noteq> (if families w = {} then {default_cf} else families w)" using e by (auto dest: arg_cong [where f = "\<lambda>A. meta_cf \<in> A"])
  then obtain s w' where "OpenDB S path [default_cf] w = (s, None, w')" "s \<noteq> Ok"
    by (rule rocksdb_disk.open_mismatch [OF assms])
  then show "fst (OpenDB S path [default_cf] w) \<noteq> Ok" by simp
qed

theorem failed_open_crashes_witness:
  "vn_mount (mem_ext no_faults) mem_sys sample_env ''vol'' ([], []) sample_heap = Inl NullDeref \<and>
   vn_mkfs_vivefs (mem_ext no_faults) mem_sys ''vol'' ([default_cf, meta_cf, data_cf], []) = Inl NullDeref"
proof -
  have f: "mem_families ([default_cf, meta_cf, data_cf], []) = UNIV" by (auto simp: mem_families_def intro: cf.exhaust)
  have e: "mem_families ([], []) = {}" by (simp add: mem_families_def)
  have c: "CreateFromUri mem_sys = Ok" by (rule mem_disk_reliable.env_ok)
  show ?thesis
    using e f c failed_open_crashes [OF mem_disk.rocksdb_disk_axioms [of no_faults], of "''vol''" "([], [])" sample_env sample_heap]
      failed_open_crashes [OF mem_disk.rocksdb_disk_axioms [of no_faults], of "''vol''" "([default_cf, meta_cf, data_cf], [])"
        sample_env sample_heap] by blast
qed

text \<open>
  C34: a volume with a foreign superblock is refused. On storage that reports no failure, when
  the stored magic or version differs, \<open>vn_mount\<close> returns \<open>NULL\<close>, leaves no in-memory inode
  behind and the stored database as it was.
\<close>

theorem mount_refuses_foreign:
  assumes "rocksdb_disk_reliable E hist batch S families content synced"
    and "families w = UNIV" and "heap_fresh h"
    and "content w meta_cf INODE_SEED_KEY = entry_put (word_bytes (seed :: 64 word))"
    and "content w meta_cf SUPERBLOCK_KEY = entry_put (serialize_superblock S sb)"
    and "json_plain (magic sb)" and "magic sb \<noteq> VIVEFS_MAGIC_STR \<or> version sb \<noteq> VIVEFS_VER"
  shows "\<exists>w' h'. vn_mount E S env path w h = Inr (None, w', h') \<and> cells h' = cells h \<and>
    families w' = UNIV \<and> content w' = content w"
proof -
  note R = assms(1)
  have rel: "rocksdb_reliable E hist batch" and dsk: "rocksdb_disk E hist batch S families content synced"
    using R by (auto dest: rocksdb_disk_reliable.axioms)
  have all: "set [default_cf, meta_cf, data_cf] = UNIV" by (auto intro: cf.exhaust)
  then have "set [default_cf, meta_cf, data_cf] = (if families w = {} then {default_cf} else families w)"
    using assms(2) by auto
  then obtain d w1 where 1: "OpenDB S path [default_cf, meta_cf, data_cf] w = (Ok, Some d, w1)" "families w1 = UNIV" "hist d = content w"
    using assms(2) all by (elim rocksdb_disk_reliable.open_run [OF R]) auto
  let ?p = "next_addr h" and ?h = "snd (heap_alloc h zero_inode)"
  obtain w2 where 2: "close_db E S (Some d) w1 = Inr w2" "families w2 = UNIV" "content w2 = content w"
    using rocksdb_disk_reliable.close_stored [OF R, of d w1] 1(2,3) by auto
  have fl: "mount_fail E S (Some d) ?p w1 (heap_set ?h ?p n) = Inr (None, w2, heap_free ?h ?p)" for n
    by (simp add: mount_fail_def delete_ViveFsContext_def 2(1) del: bindR_eq_Inr)
  have g: "Get E d meta_cf INODE_SEED_KEY = (Ok, word_bytes seed)" "Get E d meta_cf SUPERBLOCK_KEY = (Ok, serialize_superblock S sb)"
    using assms(4,5) 1(3) by (auto intro: rocksdb_reliable.get_put [OF rel])
  have al: "heap_alloc h zero_inode = (?p, ?h)" by (simp add: heap_alloc_def)
  have "mount_opened E S env path d ?p w1 ?h = Inr (None, w2, heap_free ?h ?p)"
    using assms(7) by (auto simp: mount_opened_def Let_def g deserialize_int64_def load_bytes_def fl
        rocksdb_disk.superblock_roundtrip [OF dsk assms(6)] simp del: bindR_eq_Inr)
  then have "vn_mount E S env path w h = Inr (None, w2, heap_free ?h ?p)"
    by (subst vn_mount_def, subst al) (simp add: rocksdb_disk_reliable.env_ok [OF R] 1(1))
  then show ?thesis using heap_alloc_free [OF assms(3)] 2(2,3) by blast
qed

theorem mount_refuses_foreign_witness:
  "\<exists>w' h'. vn_mount (mem_ext no_faults) mem_sys sample_env ''vol'' ([default_cf, meta_cf, data_cf],
      [((meta_cf, SUPERBLOCK_KEY), entry_put (serialize_superblock mem_sys \<lparr>magic = ''vivefs_0'', version = 1\<rparr>)),
       ((meta_cf, INODE_SEED_KEY), entry_put (word_bytes (12 :: 64 word)))]) sample_heap = Inr (None, w', h')"
proof -
  let ?sb = "\<lparr>magic = ''vivefs_0'', version = 1 :: 32 word\<rparr>"
  let ?w = "([default_cf, meta_cf, data_cf], [((meta_cf, SUPERBLOCK_KEY), entry_put (serialize_superblock mem_sys ?sb)),
       ((meta_cf, INODE_SEED_KEY), entry_put (word_bytes (12 :: 64 word)))])"
  have f: "mem_families ?w = UNIV" by (auto simp: mem_families_def intro: cf.exhaust)
  have c: "mem_content ?w meta_cf INODE_SEED_KEY = entry_put (word_bytes (12 :: 64 word))"
    "mem_content ?w meta_cf SUPERBLOCK_KEY = entry_put (serialize_superblock mem_sys ?sb)"
    by (simp_all add: mem_content_def mem_hist_def)
  have "json_plain (magic ?sb)" "version ?sb \<noteq> VIVEFS_VER" by (simp_all add: json_plain_def VIVEFS_VER_def)
  with mount_refuses_foreign [OF mem_disk_reliable.rocksdb_disk_reliable_axioms f sample_heap_fresh c, of sample_env "''vol''"]
  show ?thesis by blast
qed

end
