(* ===== verification/Metadata.thy ===== *)
theory Metadata
  imports OpenFile Mount
begin

text \<open>
  What every operation may do on any store, also one whose calls fail. \<open>meta_step\<close> is the
  abstract machine of the metadata: what one transaction may do to the stored entries. The
  lemmas show that it keeps an invariant of the stored entries, that every operation is a run
  of it, what the operation does to the in-memory inodes, and that it changes the data of
  open files only.
\<close>

section \<open>The abstract metadata\<close>

definition entry_key :: "64 word \<Rightarrow> string \<Rightarrow> slice" where
  "entry_key dir name = printf_ld_s (sint dir) name"

abbreviation c_name :: "string \<Rightarrow> bool" where
  "c_name name \<equiv> CHR 0x00 \<notin> set name"

text \<open>The stored entries and the next inode number in memory.\<close>

inductive meta_step :: "hist \<times> 64 word \<Rightarrow> hist \<times> 64 word \<Rightarrow> bool" where
  keep: "H' meta_cf = H meta_cf \<Longrightarrow> meta_step (H, s) (H', s)"
| skip_number: "H' meta_cf = H meta_cf \<Longrightarrow> unat s < 2 ^ 56 \<Longrightarrow> meta_step (H, s) (H', s + 1)"
| create: "H' meta_cf = apply_batch (create_batch dir name n) H meta_cf \<Longrightarrow> c_name name \<Longrightarrow> inode_valid n \<Longrightarrow>
    i_no n = s \<Longrightarrow> unat s < 2 ^ 56 \<Longrightarrow> meta_step (H, s) (H', s + 1)"
| unlink: "H' meta_cf = (H meta_cf)(entry_key dir name := entry_delete) \<Longrightarrow> c_name name \<Longrightarrow> meta_step (H, s) (H', s)"
| store_inode: "H' meta_cf = (H meta_cf)(inode_key (i_no n) := entry_put (inode_bytes n)) \<Longrightarrow> inode_valid n \<Longrightarrow>
    unat (i_no n) < 2 ^ 56 \<Longrightarrow> H meta_cf (inode_key (i_no n)) \<noteq> entry_delete \<or> i_no n = VN_ROOT_INO \<Longrightarrow>
    meta_step (H, s) (H', s)"
| restart: "H' meta_cf = H meta_cf \<Longrightarrow> H meta_cf INODE_SEED_KEY = entry_put (word_bytes s') \<Longrightarrow> meta_step (H, s) (H', s')"

text \<open>
  The invariant: the stored seed is not ahead of the one in memory; an inode record is
  stored under its own number, which lies below the stored seed and is the root's or a
  user's; a directory entry leads to an inode record of a user; no two directory entries lead
  to the same one; and a key of eight bytes beyond the inode numbers is that of an entry.
\<close>

definition inode_recs :: "hist \<Rightarrow> 64 word \<Rightarrow> bool" where
  "inode_recs H s0 \<longleftrightarrow> (\<forall>ino. unat ino < 2 ^ 56 \<longrightarrow> H meta_cf (inode_key ino) = entry_delete \<or>
     (\<exists>n. H meta_cf (inode_key ino) = entry_put (inode_bytes n) \<and> inode_valid n \<and> i_no n = ino \<and>
       (ino = VN_ROOT_INO \<or> 12 \<le> unat ino) \<and> unat ino < unat s0))"

definition names_lead :: "hist \<Rightarrow> bool" where
  "names_lead H \<longleftrightarrow> (\<forall>dir name. c_name name \<longrightarrow> H meta_cf (entry_key dir name) = entry_delete \<or>
     (\<exists>ino. 12 \<le> unat ino \<and> unat ino < 2 ^ 56 \<and> H meta_cf (entry_key dir name) = entry_put (word_bytes ino) \<and>
       H meta_cf (inode_key ino) \<noteq> entry_delete))"

definition names_own :: "hist \<Rightarrow> bool" where
  "names_own H \<longleftrightarrow> (\<forall>dir name dir' name' ino. c_name name \<longrightarrow> c_name name' \<longrightarrow>
     H meta_cf (entry_key dir name) = entry_put (word_bytes (ino :: 64 word)) \<longrightarrow>
     H meta_cf (entry_key dir' name') = entry_put (word_bytes ino) \<longrightarrow> dir = dir' \<and> name = name')"

definition big_keys :: "hist \<Rightarrow> bool" where
  "big_keys H \<longleftrightarrow> (\<forall>i. 2 ^ 56 \<le> unat i \<longrightarrow> H meta_cf (inode_key i) = entry_delete \<or>
     (\<exists>dir name. c_name name \<and> inode_key i = entry_key dir name))"

definition meta_inv :: "hist \<Rightarrow> 64 word \<Rightarrow> bool" where
  "meta_inv H s \<longleftrightarrow>
     (\<exists>s0. H meta_cf INODE_SEED_KEY = entry_put (word_bytes s0) \<and> 12 \<le> unat s0 \<and> unat s0 \<le> unat s \<and>
        inode_recs H s0) \<and>
     unat s \<le> 2 ^ 56 \<and> H meta_cf [] = entry_delete \<and> names_lead H \<and> names_own H \<and> big_keys H"

lemma entry_key_inject [simp]: "entry_key d nm = entry_key d' nm' \<longleftrightarrow> d = d' \<and> nm = nm'"
proof -
  have "of_int (sint d) = d" "of_int (sint d') = d'" by simp_all
  then show ?thesis unfolding entry_key_def printf_ld_s_inject by metis
qed

lemma entry_key_other [simp]:
  "entry_key d nm \<noteq> INODE_SEED_KEY" "INODE_SEED_KEY \<noteq> entry_key d nm" "entry_key d nm \<noteq> []" "[] \<noteq> entry_key d nm"
  by (simp_all add: entry_key_def) (simp_all add: printf_ld_s_def)

lemma inode_key_other [simp]: "inode_key i \<noteq> []" "[] \<noteq> inode_key i" "[] \<noteq> INODE_SEED_KEY" "INODE_SEED_KEY \<noteq> []"
  by (auto simp: INODE_SEED_KEY_def dest: arg_cong [where f = length] simp flip: length_0_conv)

lemma entry_put_inject [simp]: "entry_put v = entry_put w \<longleftrightarrow> v = w"
  by (simp add: entry_put_def)

lemma word_bytes_inject [simp]: "word_bytes (v :: 64 word) = word_bytes w \<longleftrightarrow> v = w"
  using inode_key_inject [of v w] by (simp add: inode_key_def)

lemma key_below: "unat i < 2 ^ 56 \<Longrightarrow> c_name nm \<Longrightarrow> inode_key i \<noteq> entry_key d nm \<and> entry_key d nm \<noteq> inode_key i"
  using inode_key_not_name_key [of nm i "sint d"] by (auto simp: entry_key_def)

lemma meta_inv_cong: "H' meta_cf = H meta_cf \<Longrightarrow> meta_inv H' s = meta_inv H s"
  by (simp add: meta_inv_def inode_recs_def names_lead_def names_own_def big_keys_def)

lemma meta_inv_skip: "meta_inv H s \<Longrightarrow> unat s < 2 ^ 56 \<Longrightarrow> meta_inv H (s + 1)"
proof -
  assume i: "meta_inv H s" and s: "unat s < 2 ^ 56"
  have "unat (s + 1) = unat s + 1" using s by (simp add: unat_word_ariths)
  then show ?thesis using i s unfolding meta_inv_def by auto
qed

lemma unat_next: "unat (s :: 64 word) < 2 ^ 56 \<Longrightarrow> unat (s + 1) = unat s + 1"
  by (simp add: unat_word_ariths)

lemma big_keys_frame:
  assumes "big_keys H" and "\<And>i. 2 ^ 56 \<le> unat i \<Longrightarrow> H' meta_cf (inode_key i) \<noteq> entry_delete \<Longrightarrow>
    H meta_cf (inode_key i) \<noteq> entry_delete \<or> (\<exists>dir name. c_name name \<and> inode_key i = entry_key dir name)"
  shows "big_keys H'"
  using assms unfolding big_keys_def by blast

text \<open>What a creation changes: the entry, the new inode record, and the seed.\<close>

lemma create_frame:
  assumes s: "unat s < 2 ^ 56" and c: "c_name name" and n: "i_no n = s"
    and H': "H' meta_cf = apply_batch (create_batch dir name n) H meta_cf"
  shows "H' meta_cf (entry_key dir name) = entry_put (word_bytes s)" and "H' meta_cf (inode_key s) = entry_put (inode_bytes n)"
    and "H' meta_cf INODE_SEED_KEY = entry_put (word_bytes (s + 1))" and "H' meta_cf [] = H meta_cf []"
    and "unat j < 2 ^ 56 \<Longrightarrow> j \<noteq> s \<Longrightarrow> H' meta_cf (inode_key j) = H meta_cf (inode_key j)"
    and "c_name nm \<Longrightarrow> entry_key d nm \<noteq> entry_key dir name \<Longrightarrow> H' meta_cf (entry_key d nm) = H meta_cf (entry_key d nm)"
    and "2 ^ 56 \<le> unat j \<Longrightarrow> inode_key j \<noteq> entry_key dir name \<Longrightarrow> H' meta_cf (inode_key j) = H meta_cf (inode_key j)"
proof -
  have u: "unat (i_no n) < 2 ^ 56" using s n by simp
  show "H' meta_cf (entry_key dir name) = entry_put (word_bytes s)" "H' meta_cf (inode_key s) = entry_put (inode_bytes n)"
    "H' meta_cf INODE_SEED_KEY = entry_put (word_bytes (s + 1))"
    using apply_create_batch(1-3) [OF c u, of dir H] n unfolding H' entry_key_def by simp_all
  have o: "H' meta_cf k = H meta_cf k" if "k \<notin> {entry_key dir name, inode_key s, INODE_SEED_KEY}" for k
    using apply_create_batch(4) [OF c u, of k dir H] that n unfolding H' entry_key_def by simp
  show "H' meta_cf [] = H meta_cf []" by (rule o) simp
  show "H' meta_cf (inode_key j) = H meta_cf (inode_key j)" if "unat j < 2 ^ 56" "j \<noteq> s"
    by (rule o) (use that key_below [OF that(1) c, of dir] in simp)
  show "H' meta_cf (entry_key d nm) = H meta_cf (entry_key d nm)" if "c_name nm" "entry_key d nm \<noteq> entry_key dir name"
    by (rule o) (use that key_below [OF s that(1), of d] in simp)
  show "H' meta_cf (inode_key j) = H meta_cf (inode_key j)" if "2 ^ 56 \<le> unat j" "inode_key j \<noteq> entry_key dir name"
  proof (rule o)
    have "j \<noteq> s" using that(1) s by auto
    then show "inode_key j \<notin> {entry_key dir name, inode_key s, INODE_SEED_KEY}" using that(2) by simp
  qed
qed

lemma inode_recs_create:
  assumes r: "inode_recs H s0" "12 \<le> unat s0" "unat s0 \<le> unat s" and s: "unat s < 2 ^ 56" and n: "inode_valid n" "i_no n = s"
    and b: "H' meta_cf (inode_key s) = entry_put (inode_bytes n)"
    and ik: "\<And>j. unat j < 2 ^ 56 \<Longrightarrow> j \<noteq> s \<Longrightarrow> H' meta_cf (inode_key j) = H meta_cf (inode_key j)"
  shows "inode_recs H' (s + 1)"
  unfolding inode_recs_def
proof (intro allI impI)
  fix j :: "64 word" assume j: "unat j < 2 ^ 56"
  show "H' meta_cf (inode_key j) = entry_delete \<or>
    (\<exists>m. H' meta_cf (inode_key j) = entry_put (inode_bytes m) \<and> inode_valid m \<and> i_no m = j \<and>
      (j = VN_ROOT_INO \<or> 12 \<le> unat j) \<and> unat j < unat (s + 1))"
  proof (cases "j = s")
    case True
    then show ?thesis using b n r(2,3) unat_next [OF s] by auto
  next
    case False
    have "unat m < unat (s + 1)" if "unat m < unat s0" for m :: "64 word" using that r(3) unat_next [OF s] by simp
    then show ?thesis using r(1) j ik [OF j False] unfolding inode_recs_def by metis
  qed
qed

lemma names_lead_create:
  assumes l: "names_lead H" and s: "12 \<le> unat s" "unat s < 2 ^ 56" and fresh: "H meta_cf (inode_key s) = entry_delete"
    and b: "H' meta_cf (entry_key dir name) = entry_put (word_bytes s)" "H' meta_cf (inode_key s) = entry_put (inode_bytes n)"
    and ik: "\<And>j. unat j < 2 ^ 56 \<Longrightarrow> j \<noteq> s \<Longrightarrow> H' meta_cf (inode_key j) = H meta_cf (inode_key j)"
    and nk: "\<And>nm d. c_name nm \<Longrightarrow> entry_key d nm \<noteq> entry_key dir name \<Longrightarrow> H' meta_cf (entry_key d nm) = H meta_cf (entry_key d nm)"
  shows "names_lead H'"
  unfolding names_lead_def
proof (intro allI impI)
  fix d nm assume nm: "c_name nm"
  show "H' meta_cf (entry_key d nm) = entry_delete \<or>
    (\<exists>ino. 12 \<le> unat ino \<and> unat ino < 2 ^ 56 \<and> H' meta_cf (entry_key d nm) = entry_put (word_bytes ino) \<and>
      H' meta_cf (inode_key ino) \<noteq> entry_delete)"
  proof (cases "entry_key d nm = entry_key dir name")
    case True
    then show ?thesis using b s by (metis entry_put_not_delete)
  next
    case False
    from l nm consider "H meta_cf (entry_key d nm) = entry_delete"
      | j where "12 \<le> unat j" "unat j < 2 ^ 56" "H meta_cf (entry_key d nm) = entry_put (word_bytes j)" "H meta_cf (inode_key j) \<noteq> entry_delete"
      unfolding names_lead_def by blast
    then show ?thesis using nk [OF nm False] ik fresh by cases metis+
  qed
qed

lemma names_own_create:
  fixes s :: "64 word"
  assumes o: "names_own H" and not_s: "\<And>d nm. c_name nm \<Longrightarrow> H meta_cf (entry_key d nm) \<noteq> entry_put (word_bytes s)"
    and b: "H' meta_cf (entry_key dir name) = entry_put (word_bytes s)"
    and nk: "\<And>nm d. c_name nm \<Longrightarrow> entry_key d nm \<noteq> entry_key dir name \<Longrightarrow> H' meta_cf (entry_key d nm) = H meta_cf (entry_key d nm)"
  shows "names_own H'"
  unfolding names_own_def
proof (intro allI impI)
  fix d nm d' nm' and j :: "64 word"
  assume nm: "c_name nm" "c_name nm'" and e: "H' meta_cf (entry_key d nm) = entry_put (word_bytes j)"
    "H' meta_cf (entry_key d' nm') = entry_put (word_bytes j)"
  show "d = d' \<and> nm = nm'"
  proof (cases "j = s")
    case True
    then have "entry_key d nm = entry_key dir name" "entry_key d' nm' = entry_key dir name" using nm e nk not_s by metis+
    then show ?thesis by simp
  next
    case False
    then have "entry_key d nm \<noteq> entry_key dir name" "entry_key d' nm' \<noteq> entry_key dir name" using e b by auto
    then show ?thesis using nm e nk o unfolding names_own_def by metis
  qed
qed

lemma meta_inv_create:
  assumes i: "meta_inv H s" and s: "unat s < 2 ^ 56" and c: "c_name name" and n: "inode_valid n" "i_no n = s"
    and H': "H' meta_cf = apply_batch (create_batch dir name n) H meta_cf"
  shows "meta_inv H' (s + 1)"
proof -
  from i obtain s0 where s0: "12 \<le> unat s0" "unat s0 \<le> unat s" "inode_recs H s0" "H meta_cf [] = entry_delete"
    "names_lead H" "names_own H" "big_keys H" unfolding meta_inv_def by blast
  note f = create_frame [where H' = H' and H = H, OF s c n(2) H']
  have fresh: "H meta_cf (inode_key s) = entry_delete" using s0(2,3) s unfolding inode_recs_def by (metis not_le)
  have not_s: "H meta_cf (entry_key d nm) \<noteq> entry_put (word_bytes s)" if "c_name nm" for d nm
    using s0(5) that fresh unfolding names_lead_def by (metis entry_put_inject entry_put_not_delete word_bytes_inject)
  have "inode_recs H' (s + 1)" by (rule inode_recs_create [where H' = H' and H = H, OF s0(3,1,2) s n f(2,5)])
  moreover have "12 \<le> unat s" using s0(1,2) by simp
  from names_lead_create [where H' = H' and H = H, OF s0(5) this s fresh f(1,2,5,6)] have "names_lead H'" .
  moreover have "names_own H'" by (rule names_own_create [where H' = H' and H = H, OF s0(6) not_s f(1,6)])
  moreover have "big_keys H'" by (rule big_keys_frame [OF s0(7)]) (use f(7) c in metis)
  ultimately show ?thesis
    unfolding meta_inv_def using f(3,4) s0(1,2,4) unat_next [OF s] s by (intro conjI exI [of _ "s + 1"]) auto
qed

lemma meta_inv_unlink:
  assumes i: "meta_inv H s" and c: "c_name name" and H': "H' meta_cf = (H meta_cf)(entry_key dir name := entry_delete)"
  shows "meta_inv H' s"
proof -
  have k: "H' meta_cf (inode_key j) = H meta_cf (inode_key j)" if "unat j < 2 ^ 56" for j
    using key_below [OF that c, of dir] by (simp add: H')
  have e: "H' meta_cf (entry_key d nm) = (if entry_key d nm = entry_key dir name then entry_delete else H meta_cf (entry_key d nm))"
    for d nm by (simp add: H')
  have "inode_recs H' s0 = inode_recs H s0" for s0 unfolding inode_recs_def using k by simp
  moreover have "names_lead H'" using i k e unfolding meta_inv_def names_lead_def by metis
  moreover have "names_own H'" using i e unfolding meta_inv_def names_own_def by (metis entry_put_not_delete)
  moreover have "H' meta_cf INODE_SEED_KEY = H meta_cf INODE_SEED_KEY" "H' meta_cf [] = H meta_cf []" by (simp_all add: H')
  moreover have "big_keys H'" by (rule big_keys_frame [of H]) (use i in \<open>auto simp: meta_inv_def H' split: if_splits\<close>)
  ultimately show ?thesis using i unfolding meta_inv_def by simp
qed

lemma meta_inv_store:
  assumes i: "meta_inv H s" and n: "inode_valid n" "unat (i_no n) < 2 ^ 56"
      "H meta_cf (inode_key (i_no n)) \<noteq> entry_delete \<or> i_no n = VN_ROOT_INO"
    and H': "H' meta_cf = (H meta_cf)(inode_key (i_no n) := entry_put (inode_bytes n))"
  shows "meta_inv H' s"
proof -
  from i obtain s0 where s0: "H meta_cf INODE_SEED_KEY = entry_put (word_bytes s0)" "12 \<le> unat s0" "unat s0 \<le> unat s" "inode_recs H s0"
    "unat s \<le> 2 ^ 56" "H meta_cf [] = entry_delete" "names_lead H" "names_own H" "big_keys H" unfolding meta_inv_def by blast
  have e: "H' meta_cf (entry_key d nm) = H meta_cf (entry_key d nm)" if "c_name nm" for d nm
    using key_below [OF n(2) that, of d] by (simp add: H')
  have z: "H' meta_cf (inode_key j) \<noteq> entry_delete" if "H meta_cf (inode_key j) \<noteq> entry_delete" for j
    using that by (simp add: H')
  have "unat VN_ROOT_INO < unat s0" using s0(2) by (simp add: VN_ROOT_INO_def)
  then have r: "(i_no n = VN_ROOT_INO \<or> 12 \<le> unat (i_no n)) \<and> unat (i_no n) < unat s0"
    using s0(4) n(2,3) unfolding inode_recs_def by metis
  have "inode_recs H' s0"
    unfolding inode_recs_def
  proof (intro allI impI)
    fix j :: "64 word" assume j: "unat j < 2 ^ 56"
    show "H' meta_cf (inode_key j) = entry_delete \<or> (\<exists>m. H' meta_cf (inode_key j) = entry_put (inode_bytes m) \<and>
      inode_valid m \<and> i_no m = j \<and> (j = VN_ROOT_INO \<or> 12 \<le> unat j) \<and> unat j < unat s0)"
      using s0(4) n(1) r j unfolding inode_recs_def by (cases "j = i_no n") (auto simp: H')
  qed
  moreover have "names_lead H'" using s0(7) e z unfolding names_lead_def by metis
  moreover have "names_own H'" using s0(8) e unfolding names_own_def by metis
  moreover have "H' meta_cf INODE_SEED_KEY = entry_put (word_bytes s0)" "H' meta_cf [] = entry_delete"
    using s0(1,6) by (simp_all add: H')
  moreover have "big_keys H'" by (rule big_keys_frame [OF s0(9)]) (use n(2) in \<open>auto simp: H' split: if_splits\<close>)
  ultimately show ?thesis using s0(2,3,5) unfolding meta_inv_def by blast
qed

text \<open>The invariant is kept by the abstract machine.\<close>

lemma meta_inv_step: "meta_step x y \<Longrightarrow> meta_inv (fst x) (snd x) \<Longrightarrow> meta_inv (fst y) (snd y)"
proof (induction rule: meta_step.induct)
  case (keep H' H s)
  then show ?case using meta_inv_cong [of H' H s] by simp
next
  case (skip_number H' H s)
  then show ?case using meta_inv_cong [of H' H "s + 1"] meta_inv_skip [of H s] by simp
next
  case (create H' dir name n H s)
  then show ?case using meta_inv_create [of H s name n H' dir] by simp
next
  case (unlink H' H dir name s)
  then show ?case using meta_inv_unlink [of H s name H' dir] by simp
next
  case (store_inode H' H n s)
  then show ?case using meta_inv_store [of H s n H'] by simp
next
  case (restart H' H s' s)
  then obtain "12 \<le> unat s'" "inode_recs H s'" "unat s' \<le> 2 ^ 56" "H meta_cf [] = entry_delete" "names_lead H" "names_own H" "big_keys H"
    unfolding meta_inv_def by auto
  then have "meta_inv H s'" using restart(2) unfolding meta_inv_def by auto
  then show ?case using meta_inv_cong [of H' H s'] restart(1) by simp
qed

lemma meta_inv_steps: "meta_step\<^sup>*\<^sup>* x y \<Longrightarrow> meta_inv (fst x) (snd x) \<Longrightarrow> meta_inv (fst y) (snd y)"
  by (induction rule: rtranclp_induct) (auto intro: meta_inv_step)

text \<open>Inode records are never deleted.\<close>

lemma meta_step_recs:
  "meta_step x y \<Longrightarrow> unat i < 2 ^ 56 \<Longrightarrow> fst x meta_cf (inode_key i) \<noteq> entry_delete \<Longrightarrow> fst y meta_cf (inode_key i) \<noteq> entry_delete"
proof (induction rule: meta_step.induct)
  case (create H' dir name n H s)
  have "inode_key i \<noteq> printf_ld_s (sint dir) name" using key_below [OF create(6) create(2), of dir] by (simp add: entry_key_def)
  then show ?case using create by (simp add: create_batch_def)
next
  case (unlink H' H dir name s)
  then show ?case using key_below [OF unlink(3,2), of dir] by simp
qed auto

lemma meta_steps_recs:
  "meta_step\<^sup>*\<^sup>* x y \<Longrightarrow> unat i < 2 ^ 56 \<Longrightarrow> fst x meta_cf (inode_key i) \<noteq> entry_delete \<Longrightarrow>
    fst y meta_cf (inode_key i) \<noteq> entry_delete"
proof (induction rule: rtranclp_induct)
  case (step y z)
  then show ?case using meta_step_recs [OF step(2)] by blast
qed

section \<open>The heap of in-memory inodes\<close>

text \<open>\<open>h'\<close> extends \<open>h\<close>: what was allocated in \<open>h\<close> is as it was.\<close>

definition heap_ext :: "inode_heap \<Rightarrow> inode_heap \<Rightarrow> bool" where
  "heap_ext h h' \<longleftrightarrow> heap_fresh h' \<and> next_addr h \<le> next_addr h' \<and> (\<forall>p < next_addr h. cells h' p = cells h p)"

lemma heap_ext_refl: "heap_fresh h \<Longrightarrow> heap_ext h h"
  by (simp add: heap_ext_def)

lemma heap_ext_trans: "heap_ext h h1 \<Longrightarrow> heap_ext h1 h2 \<Longrightarrow> heap_ext h h2"
  by (auto simp: heap_ext_def)

lemma heap_ext_alloc [simp]: "heap_fresh h \<Longrightarrow> heap_ext h (snd (heap_alloc h n))"
  by (auto simp: heap_ext_def heap_fresh_def heap_alloc_def)

lemma heap_fresh_addr: "heap_fresh h \<Longrightarrow> heap_get h p = Inr n \<Longrightarrow> p < next_addr h"
  unfolding heap_fresh_def heap_get_Inr by (metis not_le option.distinct(1))

lemma heap_ext_set: "heap_ext h h1 \<Longrightarrow> next_addr h \<le> p \<Longrightarrow> p < next_addr h1 \<Longrightarrow> heap_ext h (heap_set h1 p n)"
  by (auto simp: heap_ext_def heap_fresh_def)

lemma heap_ext_free: "heap_ext h h1 \<Longrightarrow> next_addr h \<le> p \<Longrightarrow> heap_ext h (heap_free h1 p)"
  by (auto simp: heap_ext_def heap_fresh_def heap_free_def)

lemma heap_ext_dec:
  assumes "heap_ext h h1" and "next_addr h \<le> p" and "vn_dec_inode_ref h1 p = Inr h2"
  shows "heap_ext h h2"
proof -
  obtain n where n: "heap_get h1 p = Inr n" using assms(3) by (auto simp: vn_dec_inode_ref_def)
  have "heap_fresh h1" using assms(1) by (simp add: heap_ext_def)
  then have "p < next_addr h1" using n by (rule heap_fresh_addr)
  then show ?thesis
    using assms n heap_ext_set [OF assms(1,2)] heap_ext_free [OF assms(1,2)] by (auto simp: vn_dec_inode_ref_def split: if_splits)
qed

lemma create_heap:
  assumes "vn_create_file E env ctx h dir name mode uid gid want = Inr (r, p, ctx', h')" and h: "heap_fresh h"
  shows "heap_ext h h'"
    and "p \<noteq> 0 \<Longrightarrow> p = next_addr h \<and> r = sint (inode_seed ctx) \<and>
      heap_get h' p = Inr (created_inode env (inode_seed ctx) mode uid gid)"
proof -
  let ?p = "next_addr h"
  have e: "heap_ext h (heap_set (snd (heap_alloc h m)) ?p n)" for m n
    by (rule heap_ext_set [OF heap_ext_alloc [OF h]]) (simp_all add: heap_alloc_def)
  let ?z = "zero_inode\<lparr>ref_cnt := 1\<rparr>" and ?k = "format_string E (sint dir) name" and ?ino = "inode_seed ctx"
  let ?n = "new_inode env ?ino mode uid gid ?z" and ?t = "BeginTransaction E (db ctx)"
  define g where "g = snd (heap_alloc h ?z)"
  have al: "heap_alloc h ?z = (?p, g)" by (simp add: heap_alloc_def g_def)
  obtain s1 v1 t1 where 1: "GetForUpdate E (db ctx) ?t meta_cf ?k = (s1, v1, t1)" by (metis prod_cases3)
  obtain s2 t2 where 2: "Put E t1 meta_cf ?k (word_bytes ?ino) = (s2, t2)" by force
  obtain s3 t3 where 3: "vn_persist_inode_tx E t2 ?n = (s3, t3)" by force
  obtain s4 t4 where 4: "Put E t3 meta_cf INODE_SEED_KEY (word_bytes (?ino + 1)) = (s4, t4)" by force
  obtain s5 d5 where 5: "Commit E t4 (db ctx) = (s5, d5)" by force
  have m: "inode_mem env ?p" using assms(1) by (auto simp: vn_create_file_def vn_alloc_inode_def split: if_splits)
  have "?p \<noteq> 0" using h by (simp add: heap_fresh_def)
  then have gg: "heap_get g ?p = Inr ?z" by (simp add: g_def heap_alloc_def heap_get_def)
  have "(h' = heap_set g ?p ?n \<and> (p \<noteq> 0 \<longrightarrow> p = ?p \<and> r = sint ?ino)) \<or> (vn_dec_inode_ref (heap_set g ?p ?n) ?p = Inr h' \<and> p = 0)"
    using assms(1) m gg
    by (auto simp: vn_create_file_def vn_alloc_inode_def Let_def generate_inode_no_def al 1 2 3 4 5 split: if_splits)
  then show "heap_ext h h'" "p \<noteq> 0 \<Longrightarrow> p = ?p \<and> r = sint ?ino \<and> heap_get h' p = Inr (created_inode env ?ino mode uid gid)"
    using e [of ?z ?n] heap_ext_dec [OF e] \<open>?p \<noteq> 0\<close> unfolding g_def created_inode_def by auto
qed

section \<open>Every operation is a run of the abstract machine\<close>

text \<open>
  An inode in memory whose record is stored (the root's need not be), and an open file with
  such an inode. \<open>inode_new\<close> is an inode that has just been loaded or created.
\<close>

definition stored_inode :: "hist \<Rightarrow> ViveInode \<Rightarrow> bool" where
  "stored_inode H n \<longleftrightarrow> inode_valid n \<and> unat (i_no n) < 2 ^ 56 \<and>
     (H meta_cf (inode_key (i_no n)) \<noteq> entry_delete \<or> i_no n = VN_ROOT_INO)"

definition inode_new :: "hist \<Rightarrow> inode_heap \<Rightarrow> inode_heap \<Rightarrow> nat \<Rightarrow> bool" where
  "inode_new H h h' p \<longleftrightarrow> heap_ext h h' \<and> next_addr h \<le> p \<and> (\<exists>n. heap_get h' p = Inr n \<and> ref_cnt n = 1 \<and> stored_inode H n)"

definition file_live :: "hist \<Rightarrow> inode_heap \<Rightarrow> ViveFile \<Rightarrow> bool" where
  "file_live H h f \<longleftrightarrow> (\<exists>n. heap_get h (inode f) = Inr n \<and> i_no n = fi_no f \<and> stored_inode H n)"

lemma stored_inode_update [simp]:
  "stored_inode H (n\<lparr>i_size := x\<rparr>) = stored_inode H n" "stored_inode H (n\<lparr>ref_cnt := r\<rparr>) = stored_inode H n"
  "stored_inode H (n\<lparr>i_mtime := t\<rparr>) = stored_inode H n" "stored_inode H (n\<lparr>i_atime := t\<rparr>) = stored_inode H n"
  "stored_inode H (n\<lparr>i_links_count := l\<rparr>) = stored_inode H n"
  by (simp_all add: stored_inode_def inode_valid_def)

lemma stored_inode_steps: "meta_step\<^sup>*\<^sup>* (H, s) (H', s') \<Longrightarrow> stored_inode H n \<Longrightarrow> stored_inode H' n"
  using meta_steps_recs [of "(H, s)" "(H', s')" "i_no n"] by (auto simp: stored_inode_def)

lemma store_step:
  "stored_inode H n \<Longrightarrow> H' meta_cf = (H meta_cf)(inode_key (i_no n) := entry_put (inode_bytes n)) \<Longrightarrow>
   meta_step\<^sup>*\<^sup>* (H, s) (H', s)"
  unfolding stored_inode_def by (intro r_into_rtranclp meta_step.store_inode) auto

lemma inode_new_alloc:
  "heap_fresh h \<Longrightarrow> ref_cnt n = 1 \<Longrightarrow> stored_inode H n \<Longrightarrow> inode_new H h (snd (heap_alloc h n)) (next_addr h)"
  by (simp add: inode_new_def heap_alloc_def heap_get_def heap_fresh_def heap_ext_def)

lemma keep_step: "H' meta_cf = H meta_cf \<Longrightarrow> meta_step\<^sup>*\<^sup>* (H, s) (H', s)"
  by (intro r_into_rtranclp meta_step.keep)

abbreviation meta_run :: "('db \<Rightarrow> hist) \<Rightarrow> 'db ViveFsContext \<Rightarrow> 'db ViveFsContext \<Rightarrow> bool" where
  "meta_run hist ctx ctx' \<equiv> meta_step\<^sup>*\<^sup>* (hist (db ctx), inode_seed ctx) (hist (db ctx'), inode_seed ctx')"

text \<open>
  What reading, writing and synchronising an open file may do to the heap: change its own
  inode, keeping the number, the references and the form of the record.
\<close>

definition file_update :: "inode_heap \<Rightarrow> ViveFile \<Rightarrow> inode_heap \<Rightarrow> ViveFile \<Rightarrow> bool" where
  "file_update h f h' f' \<longleftrightarrow> inode f' = inode f \<and> fi_no f' = fi_no f \<and>
     (\<exists>n n'. heap_get h (inode f) = Inr n \<and> h' = heap_set h (inode f) n' \<and>
        ref_cnt n' = ref_cnt n \<and> i_no n' = i_no n \<and> inode_valid n' = inode_valid n)"

lemma file_update_refl: "heap_get h (inode f) = Inr n \<Longrightarrow> inode f' = inode f \<Longrightarrow> fi_no f' = fi_no f \<Longrightarrow> file_update h f h f'"
  unfolding file_update_def using heap_set_same by metis

text \<open>The operations of a write: all on the extents of one file.\<close>

definition data_only :: "64 word \<Rightarrow> wop list \<Rightarrow> bool" where
  "data_only ino ws \<longleftrightarrow> (\<forall>w\<in>set ws. wop_cf w = data_cf \<and> (\<exists>i. wop_key w = extent_key i ino))"

context rocksdb
begin

lemma get_entry:
  assumes "Get E d c k = (st, v)" and "hist d c k = entry_put u \<or> hist d c k = entry_delete"
  shows "st = Ok \<and> hist d c k = entry_put v \<or> st = NotFound \<or> v = []"
  using assms get_ok [of d c k v] get_fail [of d c k st v] by (cases "st = Ok") auto

lemma entry_lookup:
  assumes i: "meta_inv (hist d) s" and c: "c_name name" and g: "Get E d meta_cf (entry_key dir name) = (st, v)"
    and st: "st \<noteq> NotFound"
  shows "v = [] \<or> (\<exists>ino. v = word_bytes ino \<and> unat ino < 2 ^ 56 \<and> hist d meta_cf (inode_key ino) \<noteq> entry_delete)"
proof -
  from i c obtain u where "hist d meta_cf (entry_key dir name) = entry_put u \<or> hist d meta_cf (entry_key dir name) = entry_delete"
    unfolding meta_inv_def names_lead_def by metis
  from get_entry [OF g this] st consider "hist d meta_cf (entry_key dir name) = entry_put v" | "v = []" by blast
  then show ?thesis
  proof cases
    case 1
    with i c show ?thesis unfolding meta_inv_def names_lead_def by (metis entry_put_inject entry_put_not_delete)
  qed simp
qed

lemma rec_load:
  assumes i: "meta_inv (hist d) s" and u: "unat ino < 2 ^ 56" and g: "Get E d meta_cf (inode_key ino) = (st, v)"
    and st: "st \<noteq> NotFound" and l: "deserialize_inode env h v = Inr (p, h')"
  shows "p = 0 \<and> h' = h \<or> (\<exists>n. p = next_addr h \<and> h' = snd (heap_alloc h n) \<and> ref_cnt n = 1 \<and> i_no n = ino \<and>
    stored_inode (hist d) n)"
proof -
  from i u have "hist d meta_cf (inode_key ino) = entry_delete \<or>
      (\<exists>n. hist d meta_cf (inode_key ino) = entry_put (inode_bytes n) \<and> inode_valid n \<and> i_no n = ino)"
    unfolding meta_inv_def inode_recs_def by metis
  then consider "v = []" | n where "v = inode_bytes n" "inode_valid n" "i_no n = ino" "hist d meta_cf (inode_key ino) \<noteq> entry_delete"
    using get_entry [OF g] st get_ok [of d meta_cf "inode_key ino" v] g get_fail [OF g] by fastforce
  then show ?thesis
  proof cases
    case 1
    then show ?thesis using l by (auto simp: deserialize_inode_def load_bytes_def VIVEFS_INODE_SIZE_def split: if_splits)
  next
    case (2 n)
    show ?thesis
    proof (cases "inode_mem env (next_addr h)")
      case True
      then have "p = next_addr h" "h' = snd (heap_alloc h (n\<lparr>ref_cnt := 1\<rparr>))"
        using l 2(1,2) deserialize_inode_bytes [OF 2(2) True] by auto
      moreover have "stored_inode (hist d) n" using 2(2-4) u by (simp add: stored_inode_def)
      ultimately show ?thesis using 2(3) by (intro disjI2 exI [of _ "n\<lparr>ref_cnt := 1\<rparr>"]) simp
    qed (use l in \<open>simp add: deserialize_inode_def\<close>)
  qed
qed

lemma lookup_any:
  assumes i: "meta_inv (hist (db ctx)) s" and c: "c_name name"
    and l: "vn_lookup_inode_no E env ctx h dir name True = Inr (r, p, h')"
  shows "p = 0 \<and> h' = h \<or> (\<exists>n. p = next_addr h \<and> h' = snd (heap_alloc h n) \<and> ref_cnt n = 1 \<and>
    stored_inode (hist (db ctx)) n)"
proof -
  obtain st v where g: "Get E (db ctx) meta_cf (entry_key dir name) = (st, v)" by force
  note run = l [unfolded vn_lookup_inode_no_def Let_def format_printf, folded entry_key_def]
  show ?thesis
  proof (cases "st = NotFound")
    case False
    obtain st2 v2 where g2: "Get E (db ctx) meta_cf v = (st2, v2)" by force
    show ?thesis
    proof (cases "st2 = NotFound")
      case nf: False
      obtain p2 h2 where d: "deserialize_inode env h v2 = Inr (p2, h2)" and ph: "p = 0 \<and> h' = h2 \<and> p2 = 0 \<or> p = p2 \<and> h' = h2"
        using run False nf by (auto simp: g g2 split: if_splits)
      from entry_lookup [OF i c g False] show ?thesis
      proof (elim disjE exE conjE)
        assume v: "v = []"
        have "hist (db ctx) meta_cf [] = entry_delete" using i by (simp add: meta_inv_def)
        then have "v2 = []" using get_entry [OF g2] nf v get_ok [of "db ctx" meta_cf "[]" v2] g2 by auto
        then have "p2 = 0 \<and> h2 = h"
          using d by (auto simp: deserialize_inode_def load_bytes_def VIVEFS_INODE_SIZE_def split: if_splits)
        then show ?thesis using ph by auto
      next
        fix ino :: "64 word" assume "v = word_bytes ino" "unat ino < 2 ^ 56"
        then show ?thesis using rec_load [OF i _ _ nf d, of ino] g2 ph by (auto simp: inode_key_def)
      qed
    qed (use run False g2 in \<open>simp add: g\<close>)
  qed (use run in \<open>simp add: g\<close>)
qed

lemma lookup_new:
  assumes i: "meta_inv (hist (db ctx)) s" and c: "c_name name" and h: "heap_fresh h"
    and l: "vn_lookup_inode_no E env ctx h dir name want = Inr (r, p, h')"
  shows "heap_ext h h' \<and> (p \<noteq> 0 \<longrightarrow> inode_new (hist (db ctx)) h h' p)"
proof (cases want)
  case True
  with l have "vn_lookup_inode_no E env ctx h dir name True = Inr (r, p, h')" by simp
  from lookup_any [OF i c this] show ?thesis
    using heap_ext_refl [OF h] heap_ext_alloc [OF h] inode_new_alloc [OF h] by auto
next
  case False
  then have "p = 0 \<and> h' = h" using l by (auto simp: vn_lookup_inode_no_def Let_def split: prod.splits if_splits)
  then show ?thesis using heap_ext_refl [OF h] by simp
qed

text \<open>
  \<open>vn_next_inode\<close> with any iterator, also one that is older than the database: the assertion
  and the form of the stored entries make sure that what is loaded is a stored inode.
\<close>

lemma big_record:
  assumes i: "meta_inv (hist d) s" and g: "Get E d meta_cf (inode_key ino) = (st, v)" and v: "VIVEFS_INODE_SIZE \<le> length v"
  shows "unat ino < 2 ^ 56 \<and> hist d meta_cf (inode_key ino) \<noteq> entry_delete"
proof -
  have "v \<noteq> []" using v by (auto simp: VIVEFS_INODE_SIZE_def)
  then have "st = Ok" using get_fail [OF g] by blast
  then have e: "entry_reads (hist d meta_cf (inode_key ino)) v" using get_ok [of d meta_cf "inode_key ino" v] g by simp
  then have nd: "hist d meta_cf (inode_key ino) \<noteq> entry_delete" by auto
  moreover have "unat ino < 2 ^ 56"
  proof (rule ccontr)
    assume "\<not> unat ino < 2 ^ 56"
    then obtain dir name where k: "c_name name" "inode_key ino = entry_key dir name"
      using i nd unfolding meta_inv_def big_keys_def by (meson not_less)
    then obtain j :: "64 word" where "hist d meta_cf (inode_key ino) = entry_put (word_bytes j)"
      using i nd unfolding meta_inv_def names_lead_def by metis
    then have "v = word_bytes j" using e by simp
    then show False using v by (simp add: VIVEFS_INODE_SIZE_def)
  qed
  ultimately show ?thesis by blast
qed

lemma next_any:
  assumes i: "meta_inv (hist (db ctx)) s" and h: "heap_fresh h" and r: "vn_next_inode E env ctx h it bl = Inr (p, nm, it', h')"
  shows "heap_ext h h' \<and> (p \<noteq> 0 \<longrightarrow> inode_new (hist (db ctx)) h h' p)"
proof (cases "p = 0 \<and> h' = h")
  case False
  then obtain k v rest b where k: "itor it = (k, v) # rest" "load_bytes v 0 8 = Inr b"
    using r by (auto simp: vn_next_inode_def split: list.splits prod.splits if_splits)
  let ?ino = "bytes_word b"
  obtain st buf where g: "Get E (db ctx) meta_cf (inode_key ?ino) = (st, buf)" by force
  have "\<exists>b'. load_bytes buf 0 VIVEFS_INODE_SIZE = Inr b' \<and> p = next_addr h \<and> h' = snd (heap_alloc h ((inode_of_bytes b')\<lparr>ref_cnt := 1\<rparr>)) \<and>
      i_no (inode_of_bytes b') = ?ino"
    using r False h
    by (auto simp: vn_next_inode_def k g deserialize_inode_def Let_def heap_alloc_def heap_get_def heap_fresh_def split: if_splits)
  then obtain b' where b': "load_bytes buf 0 VIVEFS_INODE_SIZE = Inr b'" "p = next_addr h"
    "h' = snd (heap_alloc h ((inode_of_bytes b')\<lparr>ref_cnt := 1\<rparr>))" "i_no (inode_of_bytes b') = ?ino" by blast
  have "VIVEFS_INODE_SIZE \<le> length buf" using b'(1) by (auto simp: load_bytes_def split: if_splits)
  from big_record [OF i g this] b'(4) have "stored_inode (hist (db ctx)) ((inode_of_bytes b')\<lparr>ref_cnt := 1\<rparr>)"
    by (simp add: stored_inode_def inode_valid_def inode_of_bytes_def)
  from inode_new_alloc [OF h _ this] show ?thesis using b'(2,3) by (simp add: inode_new_def)
qed (use heap_ext_refl [OF h] in simp)

lemma create_any:
  assumes r: "vn_create_file E env ctx h dir name mode uid gid want = Inr (r, p, ctx', h')"
    and h: "heap_fresh h" and c: "c_name name" and u: "unat (inode_seed ctx) < 2 ^ 56"
  shows "meta_run hist ctx ctx' \<and> heap_ext h h' \<and> (p \<noteq> 0 \<longrightarrow> inode_new (hist (db ctx')) h h' p)"
proof -
  have p: "next_addr h \<noteq> 0" using h by (simp add: heap_fresh_def)
  let ?n = "created_inode env (inode_seed ctx) mode uid gid"
  note o = create_outcome [OF r p]
  consider "hist (db ctx') = apply_batch (create_batch dir name ?n) (hist (db ctx))" | "hist (db ctx') = hist (db ctx)"
    using o(2) by blast
  then have "meta_step (hist (db ctx), inode_seed ctx) (hist (db ctx'), inode_seed ctx + 1)"
  proof cases
    case 1
    then show ?thesis using c u by (intro meta_step.create [of _ dir name ?n]) simp_all
  next
    case 2
    then show ?thesis using u by (intro meta_step.skip_number) simp_all
  qed
  moreover have "inode_new (hist (db ctx')) h h' p" if "p \<noteq> 0"
  proof -
    note c2 = create_heap(2) [OF r h that]
    have "0 \<le> sint (inode_seed ctx)" using u by (simp add: sint_nonneg_small)
    then have H: "hist (db ctx') = apply_batch (create_batch dir name ?n) (hist (db ctx))"
      using o(2) c2 by (auto simp: EEXIST_def EIO_def)
    have "unat (i_no ?n) < 2 ^ 56" using u by simp
    from apply_create_batch(2) [OF c this, where parent_ino = dir and H = "hist (db ctx)", folded H]
    have "stored_inode (hist (db ctx')) ?n" using u by (simp add: stored_inode_def)
    moreover have "ref_cnt ?n = 1" by (simp add: created_inode_def new_inode_def)
    ultimately show ?thesis using c2 create_heap(1) [OF r h] unfolding inode_new_def by blast
  qed
  ultimately show ?thesis using o(1) create_heap(1) [OF r h] by auto
qed

text \<open>A commit applies the whole batch or nothing.\<close>

lemma commit_meta:
  assumes "Commit E tx d = (st, d')"
  shows "hist d' = hist d \<or> hist d' = apply_batch (batch tx) (hist d)"
  using commit_hist [OF assms] by (cases "st = Ok") auto

text \<open>What the transaction of an unlink does to the metadata.\<close>

lemma unlink_meta:
  assumes "batch tx \<in> {[], [WPut meta_cf (inode_key (i_no n)) (inode_bytes n)]} \<or>
      (\<exists>ws. (\<forall>w\<in>set ws. wop_cf w = default_cf) \<and> batch tx \<in> {ws, ws @ [WDelete meta_cf (entry_key dir name)]})"
    and H': "H' = apply_batch (batch tx) H" and n: "stored_inode H n" and c: "c_name name"
  shows "meta_step\<^sup>*\<^sup>* (H, s) (H', s)"
proof -
  have o: "apply_batch ws H meta_cf = H meta_cf" if "\<forall>w\<in>set ws. wop_cf w = default_cf" for ws
    using that by (intro ext apply_batch_other) auto
  consider "H' meta_cf = H meta_cf" | "H' meta_cf = (H meta_cf)(inode_key (i_no n) := entry_put (inode_bytes n))"
    | "H' meta_cf = (H meta_cf)(entry_key dir name := entry_delete)"
    using assms(1) o by (auto simp: H')
  then show ?thesis using keep_step store_step [OF n] meta_step.unlink [of H' H dir name s] c by cases blast+
qed

lemma unlink_any:
  assumes r: "vn_unlink E env ctx h dir name = Inr (r, ctx', h')"
    and i: "meta_inv (hist (db ctx)) s" and h: "heap_fresh h" and c: "c_name name"
  shows "meta_run hist ctx ctx' \<and> heap_ext h h'"
  using r
proof (cases rule: unlink_run)
  case (absent ino p)
  then show ?thesis using lookup_any [OF i c absent(1)] heap_ext_refl [OF h] heap_ext_alloc [OF h] by auto
next
  case (linked ino p h1 n m tx)
  from lookup_any [OF i c linked(1)] linked(2) have n: "p = next_addr h" "h1 = snd (heap_alloc h n)" "stored_inode (hist (db ctx)) n"
    by (auto simp: heap_get_Inr heap_alloc_def)
  have "heap_ext h (heap_set h1 p m)"
    unfolding n(1,2) by (rule heap_ext_set [OF heap_ext_alloc [OF h]]) (simp_all add: heap_alloc_def)
  then have "heap_ext h h'" by (rule heap_ext_dec [OF _ _ linked(4)]) (simp add: n(1))
  moreover have "stored_inode (hist (db ctx)) m" using n(3) linked(3) by simp
  then have "meta_run hist ctx ctx'"
    using linked(5,7) keep_step [of "hist (db ctx')"] unlink_meta [OF linked(6) [folded entry_key_def] _ _ c]
    by (auto split: if_splits)
  ultimately show ?thesis by blast
qed

lemma truncate_any:
  assumes r: "truncate_inode E ctx h p = Inr (ok, ctx', h')" and g: "heap_get h p = Inr n" and n: "stored_inode (hist (db ctx)) n"
  shows "meta_run hist ctx ctx' \<and> inode_seed ctx' = inode_seed ctx \<and> (h' = h \<or> h' = heap_set h p (n\<lparr>i_size := 0\<rparr>))"
proof -
  let ?t = "BeginTransaction E (db ctx)" and ?k = "inode_key (i_no n)" and ?n = "n\<lparr>i_size := 0\<rparr>"
  obtain s1 v t1 where 1: "GetForUpdate E (db ctx) ?t meta_cf ?k = (s1, v, t1)" by (metis prod_cases3)
  show ?thesis
  proof (cases "s1 = Ok")
    case False
    then show ?thesis using r g by (auto simp: truncate_inode_def Let_def 1 rollback_hist)
  next
    case True
    then obtain cnt where cnt: "extent_count n = Inr cnt" using r g by (auto simp: truncate_inode_def Let_def 1)
    let ?t2 = "delete_extents E data_cf (i_no n) cnt t1"
    obtain s3 t3 where 3: "Put E ?t2 meta_cf ?k (inode_bytes ?n) = (s3, t3)" by force
    obtain s4 d where 4: "Commit E t3 (db ctx) = (s4, d)" by force
    obtain ws where ws: "batch ?t2 = ws" "\<forall>w\<in>set ws. \<exists>i < nat cnt. w = WDelete data_cf (file_extent_key (i_no n) i)"
      using delete_extents_effect [of data_cf "i_no n" cnt t1] gfu_batch [OF 1] by (auto simp: begin_empty)
    then have o: "apply_batch ws H meta_cf = H meta_cf" for H by (intro ext apply_batch_other) auto
    have "hist (db ctx') = hist (db ctx) \<or> s3 = Ok \<and> hist (db ctx') = apply_batch (batch t3) (hist (db ctx))"
      and h': "h' = heap_set h p ?n" "inode_seed ctx' = inode_seed ctx"
      using r g True cnt commit_meta [OF 4]
      by (auto simp: truncate_inode_def Let_def 1 vn_persist_inode_tx_def 3 4 rollback_hist split: if_splits)
    then have "hist (db ctx') meta_cf = hist (db ctx) meta_cf \<or>
        hist (db ctx') meta_cf = (hist (db ctx) meta_cf)(inode_key (i_no ?n) := entry_put (inode_bytes ?n))"
      using put_batch [OF 3] ws(1) o by auto
    then show ?thesis using h' n keep_step store_step [of _ ?n] by auto
  qed
qed

lemma open_by_inode_any:
  assumes r: "vn_open_file_by_inode E ctx h p oflags = Inr (fo, ctx', h')" and g: "heap_get h p = Inr n"
    and n: "stored_inode (hist (db ctx)) n"
  shows "meta_run hist ctx ctx' \<and> inode_seed ctx' = inode_seed ctx \<and> (\<exists>n'. n' \<in> {n, n\<lparr>i_size := 0\<rparr>} \<and>
    (case fo of None \<Rightarrow> h' = heap_set h p n'
     | Some f \<Rightarrow> inode f = p \<and> fi_no f = i_no n \<and> h' = heap_set h p (n'\<lparr>ref_cnt := ref_cnt n + 1\<rparr>)))"
proof -
  obtain ok c1 h1 where 1: "(if has_flag oflags O_TRUNC then truncate_inode E ctx h p else Inr (True, ctx, h)) = Inr (ok, c1, h1)"
    using r by (auto simp: vn_open_file_by_inode_def)
  have p: "p \<noteq> 0" using g by (simp add: heap_get_Inr)
  have m: "meta_run hist ctx c1 \<and> inode_seed c1 = inode_seed ctx \<and> (h1 = h \<or> h1 = heap_set h p (n\<lparr>i_size := 0\<rparr>))"
  proof (cases "has_flag oflags O_TRUNC")
    case True
    then have "truncate_inode E ctx h p = Inr (ok, c1, h1)" using 1 by simp
    then show ?thesis by (rule truncate_any [OF _ g n])
  qed (use 1 in simp)
  then have "h1 = heap_set h p n \<or> h1 = heap_set h p (n\<lparr>i_size := 0\<rparr>)" using heap_set_same [OF g] by auto
  then obtain n' where n': "n' \<in> {n, n\<lparr>i_size := 0\<rparr>}" "h1 = heap_set h p n'" by blast
  have g1: "heap_get h1 p = Inr n'" using n'(2) p by simp
  have eq: "i_no n' = i_no n" "ref_cnt n' = ref_cnt n" using n'(1) by auto
  have "(fo, ctx', h') = (if ok then (Some (new_ViveFile\<lparr>fi_no := i_no n, inode := p, noatime := has_flag oflags O_NOATIME\<rparr>), c1,
      heap_set h p (n'\<lparr>ref_cnt := ref_cnt n + 1\<rparr>)) else (None, c1, heap_set h p n'))"
    using r 1 g1 eq n'(2) by (auto simp: vn_open_file_by_inode_def vn_add_inode_ref_def)
  then show ?thesis using m n'(1) by (cases ok) auto
qed

lemma open_ino_any:
  assumes r: "open_ino E env ctx h dir name oflags mode = Inr (i, ctx', h')"
    and inv: "meta_inv (hist (db ctx)) (inode_seed ctx)" and h: "heap_fresh h" and c: "c_name name"
    and u: "unat (inode_seed ctx) < 2 ^ 56"
  shows "meta_run hist ctx ctx' \<and> heap_ext h h' \<and> (\<forall>ino. i = Some ino \<longrightarrow> unat ino < 2 ^ 56)"
proof -
  obtain st v where g: "Get E (db ctx) meta_cf (entry_key dir name) = (st, v)" by force
  note run = r [unfolded open_ino_def format_printf, folded entry_key_def, unfolded g prod.case]
  show ?thesis
  proof (cases "st = NotFound \<and> has_flag oflags O_CREAT")
    case True
    then obtain ino p c1 h1 where cr: "vn_create_file E env ctx h dir name mode 0 0 False = Inr (ino, p, c1, h1)"
      and res: "ctx' = c1" "h' = h1" "i = (if ino < 0 then None else Some (of_int ino))"
      using run by (auto split: if_splits)
    have "next_addr h \<noteq> 0" using h by (simp add: heap_fresh_def)
    from create_outcome(2) [OF cr this] have "ino = sint (inode_seed ctx) \<or> ino < 0" by (auto simp: EEXIST_def EIO_def)
    then show ?thesis using res create_any [OF cr h c u] u by auto
  next
    case False
    show ?thesis
    proof (cases "st = NotFound")
      case nf: False
      then obtain b where b: "load_bytes v 0 8 = Inr b" "i = Some (bytes_word b)" "ctx' = ctx" "h' = h"
        using run by auto
      from entry_lookup [OF inv c g nf] b(1) obtain ino :: "64 word" where "v = word_bytes ino" "unat ino < 2 ^ 56"
        by (auto simp: load_bytes_def)
      moreover from this have "bytes_word b = ino" using b(1) by (auto simp: load_bytes_def)
      ultimately show ?thesis using b(2-4) heap_ext_refl [OF h] by simp
    qed (use False run heap_ext_refl [OF h] in auto)
  qed
qed

text \<open>The last part of \<open>vn_open_file\<close>: the inode \<open>n\<close> has been loaded, the file takes its reference over.\<close>

lemma open_loaded:
  assumes h: "heap_fresh h" and n: "ref_cnt n = 1" "stored_inode (hist (db ctx)) n"
    and o: "vn_open_file_by_inode E ctx (snd (heap_alloc h n)) (next_addr h) oflags = Inr (fo, ctx', h3)"
    and d: "vn_dec_inode_ref h3 (next_addr h) = Inr h'"
  shows "meta_run hist ctx ctx' \<and> heap_ext h h' \<and>
    (\<forall>f. fo = Some f \<longrightarrow> inode_new (hist (db ctx')) h h' (inode f) \<and> file_live (hist (db ctx')) h' f)"
proof -
  let ?p = "next_addr h" and ?h = "snd (heap_alloc h n)"
  have p: "?p \<noteq> 0" using h by (simp add: heap_fresh_def)
  have g: "heap_get ?h ?p = Inr n" using p by (simp add: heap_alloc_def heap_get_def)
  from open_by_inode_any [OF o g n(2)] obtain n' where o3: "meta_run hist ctx ctx'" "n' \<in> {n, n\<lparr>i_size := 0\<rparr>}"
    "case fo of None \<Rightarrow> h3 = heap_set ?h ?p n'
     | Some f \<Rightarrow> inode f = ?p \<and> fi_no f = i_no n \<and> h3 = heap_set ?h ?p (n'\<lparr>ref_cnt := ref_cnt n + 1\<rparr>)" by blast
  have "\<exists>m. h3 = heap_set ?h ?p m" using o3(3) by (cases fo) auto
  then have "heap_ext h h3" using heap_ext_set [OF heap_ext_alloc [OF h]] by (auto simp: heap_alloc_def)
  then have e: "heap_ext h h'" by (rule heap_ext_dec [OF _ _ d]) simp
  have "inode_new (hist (db ctx')) h h' (inode f) \<and> file_live (hist (db ctx')) h' f" if "fo = Some f" for f
  proof -
    have f: "inode f = ?p" "fi_no f = i_no n" "h3 = heap_set ?h ?p (n'\<lparr>ref_cnt := ref_cnt n + 1\<rparr>)" using o3(3) that by auto
    then have "h' = heap_set ?h ?p (n'\<lparr>ref_cnt := 1\<rparr>)" using d p n(1) by (auto simp: vn_dec_inode_ref_def)
    then have "heap_get h' ?p = Inr (n'\<lparr>ref_cnt := 1\<rparr>)" using p by simp
    moreover have "stored_inode (hist (db ctx')) (n'\<lparr>ref_cnt := 1\<rparr>)" using stored_inode_steps [OF o3(1) n(2)] o3(2) by auto
    ultimately show ?thesis using f(1,2) o3(2) e unfolding file_live_def inode_new_def by auto
  qed
  then show ?thesis using o3(1) e by blast
qed

lemma open_any:
  assumes r: "vn_open_file E env ctx h dir name oflags mode = Inr (fo, ctx', h')"
    and inv: "meta_inv (hist (db ctx)) (inode_seed ctx)" and h: "heap_fresh h" and c: "c_name name"
    and u: "unat (inode_seed ctx) < 2 ^ 56"
  shows "meta_run hist ctx ctx' \<and> heap_ext h h' \<and>
    (\<forall>f. fo = Some f \<longrightarrow> inode_new (hist (db ctx')) h h' (inode f) \<and> file_live (hist (db ctx')) h' f)"
proof -
  obtain i c1 h1 where 1: "open_ino E env ctx h dir name oflags mode = Inr (i, c1, h1)" using r by (auto simp: vn_open_file_def)
  note o1 = open_ino_any [OF 1 inv h c u]
  have inv1: "meta_inv (hist (db c1)) (inode_seed c1)" using meta_inv_steps [of "(_, _)" "(_, _)"] o1 inv by fastforce
  have f1: "heap_fresh h1" "next_addr h \<le> next_addr h1" using o1 by (simp_all add: heap_ext_def)
  have stay: ?thesis if "fo = None" "ctx' = c1" "h' = h1" using o1 that by simp
  consider "fo = None" "ctx' = c1" "h' = h1"
    | ino st v p h2 where "i = Some ino" "Get E (db c1) meta_cf (inode_key ino) = (st, v)" "st \<noteq> NotFound"
      "deserialize_inode env h1 v = Inr (p, h2)"
    using r 1 by (auto simp: vn_open_file_def split: option.splits prod.splits if_splits)
  then show ?thesis
  proof cases
    case 1
    then show ?thesis by (rule stay)
  next
    case (2 ino st v p h2)
    then have "unat ino < 2 ^ 56" using o1 by simp
    from rec_load [OF inv1 this 2(2,3,4)] show ?thesis
    proof (elim disjE exE conjE)
      assume "p = 0" "h2 = h1"
      then show ?thesis using r 1 2 by (intro stay) (auto simp: vn_open_file_def)
    next
      fix n assume n: "p = next_addr h1" "h2 = snd (heap_alloc h1 n)" "ref_cnt n = 1" "stored_inode (hist (db c1)) n"
      have "p \<noteq> 0" using f1(1) n(1) by (simp add: heap_fresh_def)
      then obtain h3 where 3: "vn_open_file_by_inode E c1 (snd (heap_alloc h1 n)) (next_addr h1) oflags = Inr (fo, ctx', h3)"
        "vn_dec_inode_ref h3 (next_addr h1) = Inr h'"
        using r 1 2 n(1,2) by (auto simp: vn_open_file_def)
      note l = open_loaded [OF f1(1) n(3,4) 3]
      have "meta_run hist ctx ctx'" using o1 l by (meson rtranclp_trans)
      then show ?thesis using l o1 f1(2) heap_ext_trans [of h h1 h'] by (auto simp: inode_new_def)
    qed
  qed
qed

text \<open>Writing only adds operations on the extents of the file.\<close>

lemma data_only_segment: "data_only ino (batch tx) \<Longrightarrow> data_only ino (batch (write_segment E ino es index so data tx))"
  using merge_batch [of tx data_cf "extent_key index ino" "segment_value so data"]
    put_batch [of tx data_cf "extent_key index ino" "segment_value so data"]
  by (cases "Merge E tx data_cf (extent_key index ino) (segment_value so data)";
      cases "Put E tx data_cf (extent_key index ino) (segment_value so data)") (auto simp: write_segment_def data_only_def)

lemma write_extents_data:
  "write_extents E ino es b len off end_ext index bo tx = Inr tx' \<Longrightarrow> data_only ino (batch tx) \<Longrightarrow> data_only ino (batch tx')"
proof (induction "nat (end_ext - index)" arbitrary: index bo tx rule: less_induct)
  case less
  show ?case
  proof (cases "index < end_ext")
    case True
    then show ?thesis
      using less.prems less.hyps [of "index + 1"] data_only_segment
      by (subst (asm) write_extents.simps) (auto simp: Let_def split: if_splits)
  qed (use less.prems in \<open>simp add: write_extents.simps\<close>)
qed

lemma writev_extents_data:
  "writev_extents E ino es iov len off end_ext index bo i io tx = Inr tx' \<Longrightarrow> data_only ino (batch tx) \<Longrightarrow> data_only ino (batch tx')"
proof (induction "nat (end_ext - index)" arbitrary: index bo i io tx rule: less_induct)
  case less
  show ?case
  proof (cases "index < end_ext")
    case True
    then show ?thesis
      using less.prems less.hyps [of "index + 1"] data_only_segment
      by (subst (asm) writev_extents.simps) (auto simp: Let_def split: if_splits)
  qed (use less.prems in \<open>simp add: writev_extents.simps\<close>)
qed

lemma finish_write_any:
  assumes w: "finish_write E env ctx h f n len off tx = (r, ctx', h', f')" and g: "heap_get h (inode f) = Inr n"
    and n: "stored_inode (hist (db ctx)) n" and d: "data_only ino (batch tx)"
  shows "meta_run hist ctx ctx' \<and> inode_seed ctx' = inode_seed ctx \<and> file_update h f h' f'"
proof -
  define m where "m = (if uint (i_size n) < u64 (off + len) then n\<lparr>i_mtime := now env, i_size := of_int (u64 (off + len))\<rparr>
    else n\<lparr>i_mtime := now env\<rparr>)"
  define T where "T = (if uint (i_size n) < u64 (off + len) then vn_persist_inode_tx E tx m else (Ok, tx))"
  obtain s1 t1 where 1: "T = (s1, t1)" by force
  obtain s2 d2 where 2: "Commit E t1 (db ctx) = (s2, d2)" by force
  have m: "stored_inode (hist (db ctx)) m" "ref_cnt m = ref_cnt n" "i_no m = i_no n" "inode_valid m = inode_valid n"
    using n by (auto simp: m_def inode_valid_def)
  have r: "h' = heap_set h (inode f) m \<and> inode f' = inode f \<and> fi_no f' = fi_no f \<and> inode_seed ctx' = inode_seed ctx \<and>
      (hist (db ctx') = hist (db ctx) \<or> s1 = Ok \<and> hist (db ctx') = apply_batch (batch t1) (hist (db ctx)))"
    using w 1 2 commit_meta [OF 2] unfolding finish_write_def T_def m_def
    by (auto simp: Let_def rollback_hist split: if_splits)
  have o: "apply_batch (batch tx) H meta_cf = H meta_cf" for H
    using d by (intro ext apply_batch_other) (auto simp: data_only_def)
  have "batch t1 = batch tx \<or> batch t1 = batch tx @ [WPut meta_cf (inode_key (i_no m)) (inode_bytes m)]" if "s1 = Ok"
    using 1 that put_batch [of tx meta_cf "inode_key (i_no m)" "inode_bytes m" Ok t1]
    by (auto simp: T_def vn_persist_inode_tx_def split: if_splits)
  then have "hist (db ctx') meta_cf = hist (db ctx) meta_cf \<or>
      hist (db ctx') meta_cf = (hist (db ctx) meta_cf)(inode_key (i_no m) := entry_put (inode_bytes m))"
    using r o by auto
  then have "meta_run hist ctx ctx'" using r keep_step store_step [OF m(1)] by auto
  then show ?thesis using r g m(2-4) unfolding file_update_def by blast
qed

lemma write_any:
  assumes w: "vn_write E env ctx h f buf len off = Inr (r, ctx', h', f')" and l: "file_live (hist (db ctx)) h f"
  shows "meta_run hist ctx ctx' \<and> inode_seed ctx' = inode_seed ctx \<and> file_update h f h' f'"
proof -
  obtain n where n: "heap_get h (inode f) = Inr n" "stored_inode (hist (db ctx)) n" using l by (auto simp: file_live_def)
  consider "(ctx', h', f') = (ctx, h, f)"
    | tx where "write_extents E (fi_no f) (uint (i_extent_size n)) buf len off (end_ext_of (uint (i_extent_size n)) len off)
        (off sdiv uint (i_extent_size n)) 0 (BeginTransaction E (db ctx)) = Inr tx"
      "finish_write E env ctx h f n len off tx = (r, ctx', h', f')"
    using w by (auto simp: vn_write_def n(1) Let_def split: if_splits)
  then show ?thesis
  proof cases
    case 1
    then show ?thesis using file_update_refl [OF n(1)] by simp
  next
    case (2 tx)
    show ?thesis by (rule finish_write_any [OF 2(2) n write_extents_data [OF 2(1)]]) (simp add: data_only_def begin_empty)
  qed
qed

lemma writev_any:
  assumes w: "vn_writev E env ctx h f iov off = Inr (r, ctx', h', f')" and l: "file_live (hist (db ctx)) h f"
  shows "meta_run hist ctx ctx' \<and> inode_seed ctx' = inode_seed ctx \<and> file_update h f h' f'"
proof -
  obtain n where n: "heap_get h (inode f) = Inr n" "stored_inode (hist (db ctx)) n" using l by (auto simp: file_live_def)
  consider "(ctx', h', f') = (ctx, h, f)"
    | tx where "writev_extents E (fi_no f) (uint (i_extent_size n)) iov (iov_total iov) off
        (end_ext_of (uint (i_extent_size n)) (iov_total iov) off)
        (off sdiv uint (i_extent_size n)) 0 0 0 (BeginTransaction E (db ctx)) = Inr tx"
      "finish_write E env ctx h f n (iov_total iov) off tx = (r, ctx', h', f')"
    using w by (auto simp: vn_writev_def n(1) Let_def split: if_splits)
  then show ?thesis
  proof cases
    case 1
    then show ?thesis using file_update_refl [OF n(1)] by simp
  next
    case (2 tx)
    show ?thesis by (rule finish_write_any [OF 2(2) n writev_extents_data [OF 2(1)]]) (simp add: data_only_def begin_empty)
  qed
qed

lemma fsync_any:
  assumes s: "vn_fsync E ctx h f = Inr (r, ctx', f')" and l: "file_live (hist (db ctx)) h f"
  shows "meta_run hist ctx ctx' \<and> inode_seed ctx' = inode_seed ctx \<and> file_update h f h f'"
proof -
  obtain n where n: "heap_get h (inode f) = Inr n" "stored_inode (hist (db ctx)) n" using l by (auto simp: file_live_def)
  note o = fsync_outcome [OF s]
  have "f' \<in> {f, f\<lparr>dirty := False\<rparr>}" using s by (auto simp: vn_fsync_def Let_def split: prod.splits if_splits)
  then have "file_update h f h f'" using n(1) by (intro file_update_refl) auto
  moreover have "meta_run hist ctx ctx'" using o(2,4) n keep_step store_step [OF n(2)] by auto
  ultimately show ?thesis using o(2) by blast
qed

text \<open>Synchronising, hence closing, an open file comes to an end.\<close>

lemma fsync_returns: "heap_get h (inode f) = Inr n \<Longrightarrow> \<exists>r ctx' f'. vn_fsync E ctx h f = Inr (r, ctx', f')"
proof -
  assume g: "heap_get h (inode f) = Inr n"
  have "\<exists>st tx. sync_tx E (db ctx) h f = Inr (st, tx)"
    using g by (cases "vn_persist_inode_tx E (BeginTransaction E (db ctx)) n") (simp add: sync_tx_def Let_def)
  then obtain st tx where "sync_tx E (db ctx) h f = Inr (st, tx)" by blast
  then show ?thesis by (auto simp: vn_fsync_def Let_def simp del: bindR_eq_Inr split: prod.splits)
qed

lemma close_any:
  assumes l: "file_live (hist (db ctx)) h f"
  shows "\<exists>ctx' h'. vn_close_file E ctx h f = Inr (0, ctx', h') \<and> vn_dec_inode_ref h (inode f) = Inr h' \<and> meta_run hist ctx ctx' \<and>
    inode_seed ctx' = inode_seed ctx"
proof -
  obtain n where n: "heap_get h (inode f) = Inr n" using l by (auto simp: file_live_def)
  obtain r ctx' f' where s: "vn_fsync E ctx h f = Inr (r, ctx', f')" using fsync_returns [OF n] by blast
  note a = fsync_any [OF s l]
  have f: "inode f' = inode f" "inode f \<noteq> 0" using a n by (auto simp: file_update_def heap_get_Inr)
  obtain h' where d: "vn_dec_inode_ref h (inode f) = Inr h'" using n by (cases "ref_cnt n = 1") (auto simp: vn_dec_inode_ref_def)
  then have "vn_close_file E ctx h f = Inr (0, ctx', h')"
    using s f by (simp add: vn_close_file_def delete_ViveFile_def del: bindR_eq_Inr)
  then show ?thesis using a d by blast
qed

text \<open>Storing an inode of the caller.\<close>

lemma persist_any:
  assumes p: "vn_persist_inode E ctx h p = Inr (r, ctx')" and g: "heap_get h p = Inr n" and n: "stored_inode (hist (db ctx)) n"
  shows "meta_run hist ctx ctx' \<and> hist (db ctx') data_cf = hist (db ctx) data_cf"
proof -
  obtain s1 t1 where 1: "Put E (BeginTransaction E (db ctx)) meta_cf (inode_key (i_no n)) (inode_bytes n) = (s1, t1)" by force
  obtain s2 d2 where 2: "Commit E t1 (db ctx) = (s2, d2)" by force
  have "inode_seed ctx' = inode_seed ctx \<and> (hist (db ctx') = hist (db ctx) \<or> s1 = Ok \<and> hist (db ctx') = apply_batch (batch t1) (hist (db ctx)))"
    using p g commit_meta [OF 2] by (auto simp: vn_persist_inode_def Let_def vn_persist_inode_tx_def 1 2 rollback_hist split: if_splits)
  then have "inode_seed ctx' = inode_seed ctx \<and> (hist (db ctx') = hist (db ctx) \<or>
      hist (db ctx') = apply_wop (WPut meta_cf (inode_key (i_no n)) (inode_bytes n)) (hist (db ctx)))"
    using put_batch [OF 1] by (auto simp: begin_empty)
  then show ?thesis using keep_step store_step [OF n] by auto
qed

end

text \<open>What a call does to the data of the file \<open>ino\<close>: nothing, unless the file is open.\<close>

definition same_data :: "64 word \<Rightarrow> hist \<Rightarrow> hist \<Rightarrow> bool" where
  "same_data ino H H' \<longleftrightarrow> (\<forall>i. H' data_cf (extent_key i ino) = H data_cf (extent_key i ino))"

lemma same_data_eq: "H' data_cf = H data_cf \<Longrightarrow> same_data ino H H'"
  by (simp add: same_data_def)

lemma same_data_trans: "same_data ino H H' \<Longrightarrow> same_data ino H' H'' \<Longrightarrow> same_data ino H H''"
  by (simp add: same_data_def)

lemma same_data_fbyte: "same_data ino H H' \<Longrightarrow> fbyte H' ino p = fbyte H ino p"
  by (simp add: same_data_def fbyte_def ext_byte_def)

lemma extent_key_other: "ino \<noteq> ino' \<Longrightarrow> extent_key i ino \<noteq> extent_key j ino'"
  by (simp add: extent_key_def)

definition data_of :: "64 word \<Rightarrow> wop list \<Rightarrow> bool" where
  "data_of ino ws \<longleftrightarrow> (\<forall>w\<in>set ws. wop_cf w \<noteq> data_cf \<or> (\<exists>i. wop_key w = extent_key i ino))"

lemma same_data_batch: "data_of ino' ws \<Longrightarrow> ino \<noteq> ino' \<Longrightarrow> same_data ino H (apply_batch ws H)"
  unfolding same_data_def data_of_def by (intro allI apply_batch_other) (metis extent_key_other)

context rocksdb
begin

lemma create_data:
  assumes "vn_create_file E env ctx h dir name mode uid gid want = Inr (r, p, ctx', h')" and "heap_fresh h"
  shows "hist (db ctx') data_cf = hist (db ctx) data_cf"
proof -
  have "next_addr h \<noteq> 0" using assms(2) by (simp add: heap_fresh_def)
  from create_outcome(2) [OF assms(1) this] show ?thesis by (auto simp: create_batch_def)
qed

lemma commit_data:
  assumes "Commit E tx d = (s, d')" and "data_of ino' (batch tx)" and "ino \<noteq> ino'"
  shows "same_data ino (hist d) (hist d')"
  using commit_meta [OF assms(1)] same_data_batch [OF assms(2,3)] by (auto simp: same_data_eq)

lemma truncate_data:
  assumes r: "truncate_inode E ctx h p = Inr (ok, ctx', h')" and g: "heap_get h p = Inr n"
  shows "(\<exists>n'. heap_get h' p = Inr n' \<and> i_no n' = i_no n) \<and>
    ((ok \<longrightarrow> ino \<noteq> i_no n) \<longrightarrow> same_data ino (hist (db ctx)) (hist (db ctx')))"
proof -
  let ?t = "BeginTransaction E (db ctx)" and ?n = "n\<lparr>i_size := 0\<rparr>"
  have p: "p \<noteq> 0" using g by (simp add: heap_get_Inr)
  obtain s1 v t1 where 1: "GetForUpdate E (db ctx) ?t meta_cf (inode_key (i_no n)) = (s1, v, t1)" by (metis prod_cases3)
  show ?thesis
  proof (cases "s1 = Ok")
    case False
    then show ?thesis using r g by (auto simp: truncate_inode_def Let_def 1 rollback_hist same_data_def)
  next
    case True
    then obtain cnt where cnt: "extent_count n = Inr cnt" using r g by (auto simp: truncate_inode_def Let_def 1)
    let ?t2 = "delete_extents E data_cf (i_no n) cnt t1"
    obtain s3 t3 where 3: "Put E ?t2 meta_cf (inode_key (i_no n)) (inode_bytes ?n) = (s3, t3)" by force
    obtain s4 d4 where 4: "Commit E t3 (db ctx) = (s4, d4)" by force
    have "data_of (i_no n) (batch t3)" if "s3 = Ok"
      using delete_extents_effect [of data_cf "i_no n" cnt t1] gfu_batch [OF 1] put_batch [OF 3] that
      by (fastforce simp: begin_empty data_of_def file_extent_key_eq)
    then have "s3 = Ok \<Longrightarrow> ino \<noteq> i_no n \<Longrightarrow> same_data ino (hist (db ctx)) (hist d4)" using commit_data [OF 4] by blast
    moreover have "hist d4 = hist (db ctx)" if "s4 \<noteq> Ok" using commit_hist [OF 4] that by simp
    ultimately show ?thesis
      using r g True cnt p
      by (auto simp: truncate_inode_def Let_def 1 vn_persist_inode_tx_def 3 4 rollback_hist same_data_eq split: if_splits)
  qed
qed

lemma open_by_inode_data:
  assumes r: "vn_open_file_by_inode E ctx h p oflags = Inr (fo, ctx', h')" and d: "\<forall>f. fo = Some f \<longrightarrow> ino \<noteq> fi_no f"
  shows "same_data ino (hist (db ctx)) (hist (db ctx'))"
proof (cases "has_flag oflags O_TRUNC")
  case True
  then obtain ok c1 h1 where t: "truncate_inode E ctx h p = Inr (ok, c1, h1)" using r by (auto simp: vn_open_file_by_inode_def)
  then obtain n where n: "heap_get h p = Inr n" by (auto simp: truncate_inode_def)
  have c: "ctx' = c1" using r True t by (auto simp: vn_open_file_by_inode_def split: if_splits)
  have "ino \<noteq> i_no n" if ok
    using r True t d that truncate_data [OF t n] by (auto simp: vn_open_file_by_inode_def)
  then show ?thesis using truncate_data [OF t n, of ino] c by simp
qed (use r in \<open>auto simp: vn_open_file_by_inode_def same_data_def\<close>)

lemma open_data:
  assumes r: "vn_open_file E env ctx h dir name oflags mode = Inr (fo, ctx', h')" and h: "heap_fresh h"
    and d: "\<forall>f. fo = Some f \<longrightarrow> ino \<noteq> fi_no f"
  shows "same_data ino (hist (db ctx)) (hist (db ctx'))"
proof -
  obtain i c1 h1 where 1: "open_ino E env ctx h dir name oflags mode = Inr (i, c1, h1)" using r by (auto simp: vn_open_file_def)
  have "hist (db c1) data_cf = hist (db ctx) data_cf"
    using 1 create_data [OF _ h, of env ctx dir name mode 0 0 False]
    by (auto simp: open_ino_def split: if_splits prod.splits)
  moreover have "same_data ino (hist (db c1)) (hist (db ctx'))"
    using r 1 open_by_inode_data [of c1 _ _ _ fo ctx' _ ino] d
    by (auto simp: vn_open_file_def same_data_def split: option.splits if_splits prod.splits)
  ultimately show ?thesis by (simp add: same_data_def)
qed

lemma finish_write_data:
  assumes w: "finish_write E env ctx h f n len off tx = (r, ctx', h', f')" and d: "data_only ino' (batch tx)" and i: "ino \<noteq> ino'"
  shows "same_data ino (hist (db ctx)) (hist (db ctx'))"
proof -
  have d': "data_of ino' (batch tx)" using d by (auto simp: data_only_def data_of_def)
  have p: "data_of ino' (batch t)" if "vn_persist_inode_tx E tx m = (Ok, t)" for m t
    using put_batch [of tx meta_cf "inode_key (i_no m)" "inode_bytes m" Ok t] that d' by (auto simp: vn_persist_inode_tx_def data_of_def)
  show ?thesis
    using w commit_data [OF _ _ i] d' p
    by (auto simp: finish_write_def Let_def rollback_hist same_data_eq split: if_splits prod.splits)
qed

lemma write_data:
  assumes "ino \<noteq> fi_no f"
  shows "vn_write E env ctx h f buf len off = Inr (r, ctx', h', f') \<Longrightarrow> same_data ino (hist (db ctx)) (hist (db ctx'))"
    and "vn_writev E env ctx h f iov off = Inr (r, ctx', h', f') \<Longrightarrow> same_data ino (hist (db ctx)) (hist (db ctx'))"
proof -
  have b: "data_only (fi_no f) (batch (BeginTransaction E (db ctx)))" by (simp add: data_only_def begin_empty)
  show "vn_write E env ctx h f buf len off = Inr (r, ctx', h', f') \<Longrightarrow> same_data ino (hist (db ctx)) (hist (db ctx'))"
    by (auto simp: vn_write_def Let_def same_data_eq split: if_splits dest: finish_write_data [OF _ write_extents_data [OF _ b] assms])
  show "vn_writev E env ctx h f iov off = Inr (r, ctx', h', f') \<Longrightarrow> same_data ino (hist (db ctx)) (hist (db ctx'))"
    by (auto simp: vn_writev_def Let_def same_data_eq split: if_splits dest: finish_write_data [OF _ writev_extents_data [OF _ b] assms])
qed

lemma fsync_data:
  assumes "vn_fsync E ctx h f = Inr (r, ctx', f')"
  shows "hist (db ctx') data_cf = hist (db ctx) data_cf"
  using fsync_outcome(4) [OF assms] by auto

end

end
