(* ===== verification/Crash.thy ===== *)
theory Crash
  imports OpenFile Mount
begin

text \<open>
  What a crash leaves. The write-ahead log is flushed by hand (\<open>manual_wal_flush\<close>), so a
  commit is in the log's buffer until \<open>FlushWAL\<close> or an unmount; a crash recovers one of the
  states that were committed since. The locale \<open>rocksdb_crash\<close> adds this to what the disk
  promises. The lemmas list what each operation commits, and show that synchronised data
  survives.
\<close>

section \<open>What the operations commit\<close>

text \<open>Rollbacks and flushes, and a database that is left after at most one commit.\<close>

inductive quiet :: "('db, 'tx) ext \<Rightarrow> 'db \<Rightarrow> 'db \<Rightarrow> bool" for E where
  quiet_none [intro!]: "quiet E d d"
| quiet_rollback [intro]: "quiet E d d' \<Longrightarrow> quiet E d (Rollback E t d')"
| quiet_flush: "quiet E d d' \<Longrightarrow> FlushWAL E b d' = (s, d'') \<Longrightarrow> quiet E d d''"

definition one_commit :: "('db, 'tx) ext \<Rightarrow> 'db \<Rightarrow> 'db \<Rightarrow> bool" where
  "one_commit E d d' \<longleftrightarrow> quiet E d d' \<or> (\<exists>t s d1. Commit E t d = (s, d1) \<and> quiet E d1 d')"

lemma db_rollback [simp]: "db (rollback E tx ctx) = Rollback E tx (db ctx)"
  by (simp add: rollback_def)

lemma one_commit_none [simp]: "one_commit E d d" "one_commit E d (Rollback E t d)"
  by (auto simp: one_commit_def)

lemma one_commit_after:
  "Commit E t d = (s, d1) \<Longrightarrow> one_commit E d d1" "Commit E t d = (s, d1) \<Longrightarrow> one_commit E d (Rollback E t' d1)"
  by (auto simp: one_commit_def)

lemma create_commits:
  assumes "vn_create_file E env ctx h dir name mode uid gid want = Inr (r, p, ctx', h')" and h: "heap_fresh h"
  shows "one_commit E (db ctx) (db ctx')"
proof -
  let ?p = "next_addr h" and ?z = "zero_inode\<lparr>ref_cnt := 1\<rparr>" and ?k = "format_string E (sint dir) name" and ?ino = "inode_seed ctx"
  let ?n = "new_inode env ?ino mode uid gid ?z" and ?t = "BeginTransaction E (db ctx)"
  define g where "g = snd (heap_alloc h ?z)"
  have al: "heap_alloc h ?z = (?p, g)" by (simp add: heap_alloc_def g_def)
  obtain s1 v1 t1 where 1: "GetForUpdate E (db ctx) ?t meta_cf ?k = (s1, v1, t1)" by (metis prod_cases3)
  obtain s2 t2 where 2: "Put E t1 meta_cf ?k (word_bytes ?ino) = (s2, t2)" by force
  obtain s3 t3 where 3: "vn_persist_inode_tx E t2 ?n = (s3, t3)" by force
  obtain s4 t4 where 4: "Put E t3 meta_cf INODE_SEED_KEY (word_bytes (?ino + 1)) = (s4, t4)" by force
  obtain s5 d5 where 5: "Commit E t4 (db ctx) = (s5, d5)" by force
  have m: "inode_mem env ?p" using assms(1) by (auto simp: vn_create_file_def vn_alloc_inode_def split: if_splits)
  have "?p \<noteq> 0" using h by (simp add: heap_fresh_def)
  then have gg: "heap_get g ?p = Inr ?z" by (simp add: g_def heap_alloc_def heap_get_def)
  show ?thesis
    using assms(1) m gg one_commit_after [OF 5]
    by (auto simp: vn_create_file_def vn_alloc_inode_def Let_def generate_inode_no_def al 1 2 3 4 5 split: if_splits)
qed

lemma unlink_commits:
  assumes "vn_unlink E env ctx h dir name = Inr (r, ctx', h')"
  shows "one_commit E (db ctx) (db ctx')"
proof -
  have fin: "one_commit E (db ctx) (db ctx')"
    if "(if s \<noteq> Ok then bindR g (\<lambda>h. Inr (- EIO, rollback E tx ctx, h))
      else case Commit E tx (db ctx) of (s, d) \<Rightarrow>
        if s \<noteq> Ok then bindR g (\<lambda>h. Inr (- EIO, rollback E tx (ctx\<lparr>db := d\<rparr>), h))
        else bindR g (\<lambda>h. Inr (0, ctx\<lparr>db := d\<rparr>, h))) = Inr (r, ctx', h')" for s tx g
    using that one_commit_after [of E tx "db ctx"] by (auto split: if_splits prod.splits)
  obtain ino p h1 where l: "vn_lookup_inode_no E env ctx h dir name True = Inr (ino, p, h1)"
    using assms by (auto simp: vn_unlink_def)
  note run = assms [unfolded vn_unlink_def l bindR_simps prod.case]
  show ?thesis
  proof (cases "ino < 0")
    case False
    then obtain n where n: "heap_get h1 p = Inr n" using run by (cases "heap_get h1 p") auto
    from run [unfolded if_not_P [OF False] n bindR_simps Let_def bindR_eq_Inr] show ?thesis by (auto simp only: split_paired_all prod.case dest!: fin)
  qed (use run in simp)
qed

lemma truncate_commits:
  assumes "truncate_inode E ctx h p = Inr (ok, ctx', h')"
  shows "one_commit E (db ctx) (db ctx')"
proof -
  obtain n where n: "heap_get h p = Inr n" using assms by (auto simp: truncate_inode_def)
  let ?t = "BeginTransaction E (db ctx)" and ?k = "inode_key (i_no n)"
  obtain s1 v t1 where 1: "GetForUpdate E (db ctx) ?t meta_cf ?k = (s1, v, t1)" by (metis prod_cases3)
  show ?thesis
  proof (cases "s1 = Ok")
    case True
    then obtain cnt where cnt: "extent_count n = Inr cnt" using assms n by (auto simp: truncate_inode_def Let_def 1)
    obtain s3 t3 where 3: "vn_persist_inode_tx E (delete_extents E data_cf (i_no n) cnt t1) (n\<lparr>i_size := 0\<rparr>) = (s3, t3)" by force
    obtain s4 d where 4: "Commit E t3 (db ctx) = (s4, d)" by force
    show ?thesis
      using assms n True one_commit_after [OF 4] by (auto simp: truncate_inode_def Let_def 1 cnt 3 4 split: if_splits)
  qed (use assms n in \<open>auto simp: truncate_inode_def Let_def 1\<close>)
qed

lemma open_by_inode_commits:
  assumes "vn_open_file_by_inode E ctx h p oflags = Inr (fo, ctx', h')"
  shows "one_commit E (db ctx) (db ctx')"
  using assms truncate_commits [of E ctx h p] by (auto simp: vn_open_file_by_inode_def split: if_splits)

text \<open>Opening by name commits the creation first and the truncation second.\<close>

lemma open_commits:
  assumes "vn_open_file E env ctx h dir name oflags mode = Inr (fo, ctx', h')" and h: "heap_fresh h"
  shows "\<exists>i c1 h1. open_ino E env ctx h dir name oflags mode = Inr (i, c1, h1) \<and>
    one_commit E (db ctx) (db c1) \<and> one_commit E (db c1) (db ctx')"
proof -
  obtain i c1 h1 where 1: "open_ino E env ctx h dir name oflags mode = Inr (i, c1, h1)" using assms(1) by (auto simp: vn_open_file_def)
  have "one_commit E (db ctx) (db c1)"
    using 1 create_commits [OF _ h, of E env ctx dir name mode 0 0 False]
    by (auto simp: open_ino_def split: if_splits prod.splits)
  moreover have "one_commit E (db c1) (db ctx')"
    using assms(1) 1 open_by_inode_commits [of E c1]
    by (auto simp: vn_open_file_def split: option.splits if_splits prod.splits)
  ultimately show ?thesis using 1 by blast
qed

lemma finish_write_commits:
  assumes "finish_write E env ctx h f n len off tx = (r, ctx', h', f')"
  shows "one_commit E (db ctx) (db ctx')"
  using assms one_commit_after [of E _ "db ctx"]
  by (auto simp: finish_write_def Let_def split: if_splits prod.splits)

lemma write_commits:
  "vn_write E env ctx h f buf len off = Inr (r, ctx', h', f') \<Longrightarrow> one_commit E (db ctx) (db ctx')"
  "vn_writev E env ctx h f iov off = Inr (r, ctx', h', f') \<Longrightarrow> one_commit E (db ctx) (db ctx')"
  by (auto simp: vn_write_def vn_writev_def Let_def split: if_splits dest: finish_write_commits)

lemma fsync_commits:
  assumes "vn_fsync E ctx h f = Inr (r, ctx', f')"
  shows "one_commit E (db ctx) (db ctx')"
proof -
  obtain s tx where 1: "sync_tx E (db ctx) h f = Inr (s, tx)"
    using assms by (cases "sync_tx E (db ctx) h f") (auto simp: vn_fsync_def Let_def)
  obtain s2 d2 where 2: "Commit E tx (db ctx) = (s2, d2)" by force
  obtain s3 d3 where 3: "FlushWAL E True d2 = (s3, d3)" by force
  have "one_commit E (db ctx) (Rollback E tx d3)"
    using 2 quiet_flush [OF quiet_none 3] by (auto simp: one_commit_def)
  then show ?thesis using assms one_commit_after [OF 2] by (auto simp: vn_fsync_def Let_def 1 2 3 split: if_splits)
qed

lemma close_commits:
  assumes "vn_close_file E ctx h f = Inr (r, ctx', h')"
  shows "one_commit E (db ctx) (db ctx')"
  using assms by (auto simp: vn_close_file_def dest: fsync_commits)

lemma persist_commits:
  assumes "vn_persist_inode E ctx h p = Inr (r, ctx')"
  shows "one_commit E (db ctx) (db ctx')"
proof -
  obtain n where n: "heap_get h p = Inr n" using assms by (auto simp: vn_persist_inode_def Let_def)
  obtain s1 t1 where 1: "vn_persist_inode_tx E (BeginTransaction E (db ctx)) n = (s1, t1)" by force
  obtain s2 d2 where 2: "Commit E t1 (db ctx) = (s2, d2)" by force
  show ?thesis using assms n one_commit_after(2) [OF 2] by (auto simp: vn_persist_inode_def Let_def 1 2 split: if_splits)
qed

section \<open>What a crash may recover\<close>

text \<open>
  \<open>recov d\<close> are the states that a crash of \<open>d\<close> may leave on the disk. A commit adds its state
  and may push older ones out of the log's buffer; a flush with \<open>sync\<close> that succeeds leaves
  only the current state; a database that has just been opened has been recovered.
\<close>

locale rocksdb_crash = rocksdb_disk E hist batch S families content synced
  for E :: "('db, 'tx) ext" and hist :: "'db \<Rightarrow> hist" and batch :: "'tx \<Rightarrow> wop list"
    and S :: "('db, 'w) sys" and families :: "'w \<Rightarrow> cf set" and content :: "'w \<Rightarrow> hist" and synced :: "'db \<Rightarrow> bool" +
  fixes recov :: "'db \<Rightarrow> hist set"
  assumes recov_commit: "Commit E t d = (s, d') \<Longrightarrow> recov d' \<subseteq> insert (hist d') (recov d)"
    and recov_rollback: "recov (Rollback E t d) \<subseteq> recov d"
    and recov_flush: "FlushWAL E b d = (s, d') \<Longrightarrow> recov d' \<subseteq> recov d"
    and recov_synced: "FlushWAL E True d = (Ok, d') \<Longrightarrow> recov d' \<subseteq> {hist d'}"
    and recov_open: "OpenDB S path cfs w = (Ok, Some d, w') \<Longrightarrow> recov d \<subseteq> {hist d}"
    and recov_mem: "FlushMem S cfs d = (s, d') \<Longrightarrow> recov d' \<subseteq> insert (hist d') (recov d)"
    and recov_sync: "SyncWAL S d = (s, d') \<Longrightarrow> recov d' \<subseteq> insert (hist d') (recov d)"
    and recov_cancel: "recov (CancelAllBackgroundWork S d) \<subseteq> recov d"

locale rocksdb_crash_reliable =
  rocksdb_crash E hist batch S families content synced recov + rocksdb_disk_reliable E hist batch S families content synced
  for E :: "('db, 'tx) ext" and hist :: "'db \<Rightarrow> hist" and batch :: "'tx \<Rightarrow> wop list"
    and S :: "('db, 'w) sys" and families :: "'w \<Rightarrow> cf set" and content :: "'w \<Rightarrow> hist" and synced :: "'db \<Rightarrow> bool"
    and recov :: "'db \<Rightarrow> hist set"

context rocksdb_crash
begin

lemma quiet_recov: "quiet E d d' \<Longrightarrow> hist d' = hist d \<and> recov d' \<subseteq> recov d"
proof (induction rule: quiet.induct)
  case (quiet_rollback d d' t)
  then show ?case using rollback_hist [of t d'] recov_rollback [of t d'] by auto
next
  case (quiet_flush d d' b s d'')
  then show ?case using flush_hist [OF quiet_flush(2)] recov_flush [OF quiet_flush(2)] by auto
qed simp

lemma one_commit_recov:
  assumes "one_commit E d d'"
  shows "recov d' \<subseteq> insert (hist d') (recov d)"
proof -
  consider "quiet E d d'" | t s d1 where "Commit E t d = (s, d1)" "quiet E d1 d'" using assms by (auto simp: one_commit_def)
  then show ?thesis
  proof cases
    case 1
    then show ?thesis using quiet_recov by blast
  next
    case (2 t s d1)
    then show ?thesis using recov_commit [OF 2(1)] quiet_recov [OF 2(2)] by auto
  qed
qed

lemma flush_fs_recov:
  assumes "vn_flush_fs S ctx = (r, ctx')"
  shows "hist (db ctx') = hist (db ctx) \<and> inode_seed ctx' = inode_seed ctx \<and> recov (db ctx') \<subseteq> insert (hist (db ctx)) (recov (db ctx))"
proof -
  obtain s1 d1 where 1: "FlushMem S [meta_cf, data_cf, default_cf] (db ctx) = (s1, d1)" by force
  obtain s2 d2 where 2: "SyncWAL S d1 = (s2, d2)" by force
  note h = flush_mem_hist [OF 1] sync_hist [OF 2] cancel_hist [of d2]
  note v = recov_mem [OF 1] recov_sync [OF 2] recov_cancel [of d2]
  from v h have "recov d2 \<subseteq> insert (hist (db ctx)) (recov (db ctx))"
    "recov (CancelAllBackgroundWork S d2) \<subseteq> insert (hist (db ctx)) (recov (db ctx))" by auto
  then show ?thesis using assms h v(1) by (auto simp: vn_flush_fs_def 1 2 split: if_splits)
qed

text \<open>After a flush that succeeds nothing older is recovered.\<close>

lemma fsync_recov:
  assumes "vn_fsync E ctx h f = Inr (r, ctx', f')" and "\<And>d. fst (FlushWAL E True d) = Ok"
    and "\<And>t d. fst (Commit E t d) = Ok" and "\<And>t c k v. fst (Put E t c k v) = Ok"
  shows "recov (db ctx') \<subseteq> {hist (db ctx')}"
proof -
  obtain s tx where 1: "sync_tx E (db ctx) h f = Inr (s, tx)"
    using assms(1) by (cases "sync_tx E (db ctx) h f") (auto simp: vn_fsync_def Let_def)
  have s: "s = Ok"
    using 1 assms(4) by (auto simp: sync_tx_def Let_def vn_persist_inode_tx_def split: if_splits) (metis fst_conv)
  obtain d2 where 2: "Commit E tx (db ctx) = (Ok, d2)" using assms(3) [of tx "db ctx"] by (metis prod.collapse)
  obtain d3 where 3: "FlushWAL E True d2 = (Ok, d3)" using assms(2) [of d2] by (metis prod.collapse)
  have "db ctx' = Rollback E tx d3" using assms(1) by (auto simp: vn_fsync_def Let_def 1 2 3 s)
  then show ?thesis using recov_synced [OF 3] recov_rollback [of tx d3] rollback_hist [of tx d3] by auto
qed

end

section \<open>A store with a log\<close>

text \<open>
  The instance: the current database and the committed ones that are still in the buffer of
  the log. A crash recovers any of them.
\<close>

type_synonym waldb = "memdb \<times> memdb list"

definition wal_ext :: "faults \<Rightarrow> (waldb, wop list) ext" where
  "wal_ext F =
     \<lparr>format_string = printf_ld_s,
      BeginTransaction = (\<lambda>_. []),
      GetForUpdate = (\<lambda>d. GetForUpdate (mem_ext F) (fst d)),
      Put = Put (mem_ext F), Merge = Merge (mem_ext F), Delete = Delete (mem_ext F),
      Commit = (\<lambda>t d. case Commit (mem_ext F) t (fst d) of (s, m) \<Rightarrow> (s, if s = Ok then (m, fst d # snd d) else d)),
      Rollback = (\<lambda>_ d. d),
      Get = (\<lambda>d. Get (mem_ext F) (fst d)),
      Scan = (\<lambda>d. Scan (mem_ext F) (fst d)),
      FlushWAL = (\<lambda>b d. if fail_flush F then (Err 5, d) else (Ok, if b then (fst d, []) else d))\<rparr>"

definition wal_hist :: "waldb \<Rightarrow> hist" where
  "wal_hist d = mem_hist (fst d)"

definition wal_recov :: "waldb \<Rightarrow> hist set" where
  "wal_recov d = mem_hist ` set (fst d # snd d)"

definition wal_sys :: "(waldb, memdisk) sys" where
  "wal_sys =
     \<lparr>json_parse = mem_parse, json_dump = mem_dump, CreateFromUri = Ok,
      OpenDB = (\<lambda>path cfs w. case OpenDB mem_sys path cfs w of (s, od, w) \<Rightarrow> (s, map_option (\<lambda>m. (m, [])) od, w)),
      CreateColumnFamily = (\<lambda>c d w. case CreateColumnFamily mem_sys c (fst d) w of (s, m, w) \<Rightarrow> (s, (m, snd d), w)),
      FlushMem = (\<lambda>_ d. (Ok, d)), SyncWAL = (\<lambda>d. (Ok, (fst d, []))), CancelAllBackgroundWork = (\<lambda>d. d),
      CloseDB = (\<lambda>d w. CloseDB mem_sys (fst d) w)\<rparr>"

lemmas wal_defs = wal_ext_def wal_sys_def wal_hist_def wal_recov_def

interpretation wal: rocksdb "wal_ext F" wal_hist "\<lambda>t. t"
  by unfold_locales
    (auto simp: wal_defs mem.scan_sorted split: prod.splits if_splits
      dest: mem.gfu_batch mem.gfu_ok mem.gfu_notfound mem.put_batch mem.merge_batch mem.delete_batch mem.commit_hist
        mem.get_ok mem.get_notfound mem.get_fail mem.scan_sound
      simp del: mem_ext_simps)

interpretation wal_reliable: rocksdb_reliable "wal_ext no_faults" wal_hist "\<lambda>t. t"
proof unfold_locales
  show "fst (Commit (wal_ext no_faults) t d) = Ok" "fst (FlushWAL (wal_ext no_faults) b d) = Ok" for t d b
    by (simp_all add: wal_ext_def no_faults_def)
qed (auto simp: wal_ext_def wal_hist_def mem_reliable.put_succeeds mem_reliable.merge_succeeds
    mem_reliable.delete_succeeds mem_reliable.get_status mem_reliable.gfu_status mem_reliable.scan_complete
    simp del: mem_ext_simps)

interpretation wal_disk: rocksdb_disk "wal_ext F" wal_hist "\<lambda>t. t" wal_sys mem_families mem_content "\<lambda>_. True"
proof unfold_locales
  show "OpenDB wal_sys path cfs w = (Ok, od, w') \<Longrightarrow> \<exists>d'. od = Some d' \<and>
      (if mem_families w = {} then set cfs = {default_cf} \<and> mem_families w' = {default_cf} \<and> wal_hist d' = (\<lambda>_ _. entry_delete)
       else set cfs = mem_families w \<and> mem_families w' = mem_families w \<and> wal_hist d' = mem_content w)" for path cfs w od w'
    using mem_disk.open_ok [of path cfs w _ w']
    by (cases "OpenDB mem_sys path cfs w"; cases "mem_families w = {}") (auto simp: wal_defs)
  show "OpenDB wal_sys path cfs w = (s, od, w') \<Longrightarrow> s \<noteq> Ok \<Longrightarrow>
      od = None \<and> mem_families w' = mem_families w \<and> mem_content w' = mem_content w" for path cfs w s od w'
    using mem_disk.open_fail [of path cfs w s _ w'] by (cases "OpenDB mem_sys path cfs w") (auto simp: wal_defs)
  show "CreateColumnFamily wal_sys c d w = (s, d', w') \<Longrightarrow>
      (if s = Ok then wal_hist d' = (wal_hist d)(c := (\<lambda>_. entry_delete)) \<and> mem_families w' = insert c (mem_families w)
       else wal_hist d' = wal_hist d \<and> mem_families w' = mem_families w)" for c d w s d' w'
    using mem_disk.create_cf [of c "fst d" w s _ w'] by (cases "CreateColumnFamily mem_sys c (fst d) w") (auto simp: wal_defs)
  show "json_plain (magic sb) \<Longrightarrow> json_parse wal_sys (json_dump wal_sys (to_json sb)) = Inr (to_json sb)"
    "json_plain (magic sb) \<Longrightarrow> CHR 0x00 \<notin> set (json_dump wal_sys (to_json sb))" for sb
    using mem_disk.json_roundtrip [of sb] mem_disk.json_text [of sb] by (simp_all add: wal_sys_def)
  show "mem_content (CloseDB wal_sys d w) = wal_hist d" "mem_families (CloseDB wal_sys d w) = mem_families w" for d w
    using mem_disk.close_content [of "fst d" w] mem_disk.close_families [of "fst d" w] by (simp_all add: wal_defs)
qed (auto simp: wal_defs)

interpretation wal_disk_reliable:
  rocksdb_disk_reliable "wal_ext no_faults" wal_hist "\<lambda>t. t" wal_sys mem_families mem_content "\<lambda>_. True"
proof unfold_locales
  show "set cfs = (if mem_families w = {} then {default_cf} else mem_families w) \<Longrightarrow> fst (OpenDB wal_sys path cfs w) = Ok"
    for cfs w path
    using mem_disk_reliable.open_succeeds [of cfs w path] by (auto simp: wal_sys_def split: prod.splits)
  show "c \<notin> mem_families w \<Longrightarrow> fst (CreateColumnFamily wal_sys c d w) = Ok" for c w d
    using mem_disk_reliable.create_cf_succeeds [of c w "fst d"] by (auto simp: wal_sys_def split: prod.splits)
qed (simp add: wal_sys_def)

interpretation wal_crash: rocksdb_crash "wal_ext F" wal_hist "\<lambda>t. t" wal_sys mem_families mem_content "\<lambda>_. True" wal_recov
  by unfold_locales (auto simp: wal_defs split: prod.splits if_splits)

interpretation wal_crash_reliable:
  rocksdb_crash_reliable "wal_ext no_faults" wal_hist "\<lambda>t. t" wal_sys mem_families mem_content "\<lambda>_. True" wal_recov
  ..

section \<open>Properties\<close>

context rocksdb_reliable
begin

lemma fsync_stores:
  assumes "heap_get h (inode f) = Inr n" and "\<not> dirty f \<Longrightarrow> hist (db ctx) meta_cf (inode_key (i_no n)) = entry_put (inode_bytes n)"
  shows "\<exists>ctx' f'. vn_fsync E ctx h f = Inr (- EIO, ctx', f') \<and>
    hist (db ctx') = (hist (db ctx))(meta_cf := (hist (db ctx) meta_cf)(inode_key (i_no n) := entry_put (inode_bytes n)))"
proof (cases "dirty f")
  case True
  from fsync_dirty [OF True assms(1), of ctx] show ?thesis by (auto simp: fun_eq_iff)
next
  case False
  from fsync_clean [OF False, of ctx h] show ?thesis using assms(2) [OF False] by (auto simp: fun_eq_iff)
qed

lemma write_fsync_run:
  assumes "heap_get h (inode file) = Inr n" "i_extent_size n = of_nat VIVEFS_EXTENT_SIZE" "buf_mem env"
    and "0 \<le> offset" "0 \<le> len" "offset + len < 2 ^ 63" "len \<le> int (length in_buf)"
  defines "n' \<equiv> written_inode env n len offset"
  shows "\<exists>ctx1 h1 f1 r ctx2 f2. vn_write E env ctx h file in_buf len offset = Inr (len, ctx1, h1, f1) \<and>
    vn_fsync E ctx1 h1 f1 = Inr (r, ctx2, f2) \<and>
    hist (db ctx2) data_cf = apply_batch (write_batch (fi_no file) in_buf len offset) (hist (db ctx)) data_cf \<and>
    hist (db ctx2) meta_cf = (hist (db ctx) meta_cf)(inode_key (i_no n) := entry_put (inode_bytes n'))"
proof -
  from write_run [OF assms(1-7), of ctx] obtain d where
    w: "vn_write E env ctx h file in_buf len offset =
      Inr (len, ctx\<lparr>db := d\<rparr>, heap_set h (inode file) n', file\<lparr>dirty := \<not> uint (i_size n) < offset + len\<rparr>)"
      "hist d data_cf = apply_batch (write_batch (fi_no file) in_buf len offset) (hist (db ctx)) data_cf"
      "hist d meta_cf = (if uint (i_size n) < offset + len
        then (hist (db ctx) meta_cf)(inode_key (i_no n) := entry_put (inode_bytes n')) else hist (db ctx) meta_cf)"
    unfolding n'_def by blast
  let ?f = "file\<lparr>dirty := \<not> uint (i_size n) < offset + len\<rparr>" and ?h = "heap_set h (inode file) n'"
  have i: "i_no n' = i_no n" by (simp add: n'_def written_inode_def)
  have g: "heap_get ?h (inode ?f) = Inr n'" using assms(1) by (simp add: heap_get_Inr)
  from fsync_stores [OF g, of "ctx\<lparr>db := d\<rparr>"] obtain ctx2 f2 where
    "vn_fsync E (ctx\<lparr>db := d\<rparr>) ?h ?f = Inr (- EIO, ctx2, f2)"
    "hist (db ctx2) = (hist d)(meta_cf := (hist d meta_cf)(inode_key (i_no n) := entry_put (inode_bytes n')))"
    using w(3) i by auto
  then show ?thesis using w by (intro exI [of _ "ctx\<lparr>db := d\<rparr>"] exI [of _ ?h] exI [of _ ?f] exI conjI) auto
qed

end

text \<open>
  What a read observes, as opposed to the logical content \<open>fbyte\<close>: the request is in range
  and the extents of the file are in order, so that no partial merge can be seen.
\<close>

definition read_request :: "inode_heap \<Rightarrow> ViveFile \<Rightarrow> ViveInode \<Rightarrow> slice \<Rightarrow> int \<Rightarrow> int \<Rightarrow> bool" where
  "read_request h g m out_buf len offset \<longleftrightarrow> heap_get h (inode g) = Inr m \<and> i_extent_size m = of_nat VIVEFS_EXTENT_SIZE \<and>
     0 \<le> offset \<and> 0 \<le> len \<and> offset + len < 2 ^ 63 \<and> offset \<le> uint (i_size m) \<and> len \<le> int (length out_buf)"

text \<open>
  Reading on \<open>ctx'\<close> shows the write that was made on \<open>ctx\<close>: an aligned read of the file delivers
  the written bytes, elsewhere what the file had, and reads of other files in order return
  what they returned.
\<close>

definition shows_write ::
  "('db, 'tx) ext \<Rightarrow> ('db \<Rightarrow> hist) \<Rightarrow> sysenv \<Rightarrow> 'db ViveFsContext \<Rightarrow> 64 word \<Rightarrow> slice \<Rightarrow> int \<Rightarrow> int \<Rightarrow> 'db ViveFsContext \<Rightarrow> bool" where
  "shows_write E hist env ctx ino in_buf len offset ctx' \<longleftrightarrow>
     (\<forall>h g m out_buf l off. read_request h g m out_buf l off \<longrightarrow>
       (fi_no g = ino \<and> off mod 65536 = 0 \<longrightarrow>
         (\<exists>out' st. vn_read E env ctx' h g out_buf l off = Inr (min l (uint (i_size m) - off), out', st) \<and>
           (\<forall>j. int j < min l (uint (i_size m) - off) \<longrightarrow>
             out' ! j = (if offset \<le> off + int j \<and> off + int j < offset + len then in_buf ! (nat off + j - nat offset)
               else fbyte (hist (db ctx)) ino (nat off + j))))) \<and>
       (fi_no g \<noteq> ino \<and> extents_ok (hist (db ctx)) (fi_no g) \<longrightarrow>
         vn_read E env ctx' h g out_buf l off = vn_read E env ctx h g out_buf l off))"

lemma extents_ok_other:
  assumes "H' data_cf = apply_batch (write_batch ino in_buf len offset) H data_cf" and "ino' \<noteq> ino"
  shows "extents_ok H' ino' = extents_ok H ino'"
proof -
  have "extent_key i ino' \<noteq> extent_key j ino" for i j using assms(2) by (simp add: extent_key_def)
  then have "H' data_cf (extent_key i ino') = H data_cf (extent_key i ino')" for i
    unfolding assms(1) write_batch_def by (intro apply_batch_other) (metis write_ops_keys)
  then show ?thesis by (simp add: extents_ok_def)
qed

context rocksdb_reliable
begin

text \<open>Two databases with the same bytes in order cannot be told apart by reading.\<close>

lemma read_same:
  assumes q: "read_request h g m out_buf len offset"
    and "extents_ok (hist (db ctx)) (fi_no g)" "extents_ok (hist (db ctx')) (fi_no g)"
    and f: "\<And>p. p < 2 ^ 63 \<Longrightarrow> fbyte (hist (db ctx')) (fi_no g) p = fbyte (hist (db ctx)) (fi_no g) p"
  shows "vn_read E env ctx' h g out_buf len offset = vn_read E env ctx h g out_buf len offset"
proof -
  note q = q [unfolded read_request_def]
  let ?m = "min len (uint (i_size m) - offset)"
  obtain x where x: "vn_read E env ctx h g out_buf len offset = Inr (?m, x, finish_read env h g m)" "length x = length out_buf"
    "\<And>j. j < length out_buf \<Longrightarrow> x ! j = (if int j < ?m then fbyte (hist (db ctx)) (fi_no g) (nat (read_pos offset (int j))) else out_buf ! j)"
    using read_run [of h g m ctx offset len out_buf env] q assms(2) by blast
  obtain y where y: "vn_read E env ctx' h g out_buf len offset = Inr (?m, y, finish_read env h g m)" "length y = length out_buf"
    "\<And>j. j < length out_buf \<Longrightarrow> y ! j = (if int j < ?m then fbyte (hist (db ctx')) (fi_no g) (nat (read_pos offset (int j))) else out_buf ! j)"
    using read_run [of h g m ctx' offset len out_buf env] q assms(3) by blast
  have "nat (read_pos offset (int j)) < 2 ^ 63" if "int j < ?m" for j
    using that q by (auto simp: read_pos_def)
  then have "y = x" using x(2,3) y(2,3) f by (intro nth_equalityI) auto
  then show ?thesis using x(1) y(1) by simp
qed

lemma read_delivers:
  assumes q: "read_request h g m out_buf len offset" and "extents_ok (hist (db ctx)) (fi_no g)" and "offset mod 65536 = 0"
  shows "\<exists>out' st. vn_read E env ctx h g out_buf len offset = Inr (min len (uint (i_size m) - offset), out', st) \<and>
    (\<forall>j. int j < min len (uint (i_size m) - offset) \<longrightarrow> out' ! j = fbyte (hist (db ctx)) (fi_no g) (nat offset + j))"
proof -
  note q = q [unfolded read_request_def]
  have p: "nat (read_pos offset (int j)) = nat offset + j" for j
    using q assms(3) by (simp add: read_pos_aligned nat_add_distrib)
  let ?m = "min len (uint (i_size m) - offset)"
  obtain x where "vn_read E env ctx h g out_buf len offset = Inr (?m, x, finish_read env h g m)"
    "\<And>j. j < length out_buf \<Longrightarrow> x ! j = (if int j < ?m then fbyte (hist (db ctx)) (fi_no g) (nat offset + j) else out_buf ! j)"
    using read_run [of h g m ctx offset len out_buf env] q assms(2) unfolding p by blast
  then show ?thesis using q by auto
qed

lemma batch_shows_write:
  assumes "0 \<le> offset" "0 < len" "offset + len < 2 ^ 63" "len \<le> int (length in_buf)"
    and o: "extents_ok (hist (db ctx)) ino" "write_joins (hist (db ctx)) ino len offset"
    and H: "hist (db ctx') data_cf = apply_batch (write_batch ino in_buf len offset) (hist (db ctx)) data_cf"
  shows "shows_write E hist env ctx ino in_buf len offset ctx'"
proof -
  have l: "0 \<le> len" using assms(2) by simp
  have "fbyte (hist (db ctx')) = fbyte (apply_batch (write_batch ino in_buf len offset) (hist (db ctx)))" by (rule fbyte_cong) (rule H)
  then have b: "fbyte (hist (db ctx')) i p =
      (if i = ino \<and> offset \<le> int p \<and> int p < offset + len then in_buf ! (p - nat offset) else fbyte (hist (db ctx)) i p)"
    if "p < 2 ^ 63" for i p using write_batch_fbyte [OF assms(1) l assms(3,4) that] by simp
  have ok: "extents_ok (hist (db ctx')) ino"
    using write_batch_ok [OF assms(1-4) o] H by (simp add: extents_ok_def)
  have A: "\<exists>out' st. vn_read E env ctx' h g out_buf l off = Inr (min l (uint (i_size m) - off), out', st) \<and>
      (\<forall>j. int j < min l (uint (i_size m) - off) \<longrightarrow>
        out' ! j = (if offset \<le> off + int j \<and> off + int j < offset + len then in_buf ! (nat off + j - nat offset)
          else fbyte (hist (db ctx)) ino (nat off + j)))"
    if q: "read_request h g m out_buf l off" and g: "fi_no g = ino" "off mod 65536 = 0" for h g m out_buf l off
  proof -
    have p: "nat off + j < 2 ^ 63" "int (nat off + j) = off + int j" if "int j < min l (uint (i_size m) - off)" for j
      using that q by (auto simp: read_request_def)
    from ok g(1) have "extents_ok (hist (db ctx')) (fi_no g)" by simp
    from read_delivers [OF q this g(2), of env] obtain x st where
      x: "vn_read E env ctx' h g out_buf l off = Inr (min l (uint (i_size m) - off), x, st)"
      "\<And>j. int j < min l (uint (i_size m) - off) \<Longrightarrow> x ! j = fbyte (hist (db ctx')) ino (nat off + j)" using g(1) by blast
    have "x ! j = (if offset \<le> off + int j \<and> off + int j < offset + len then in_buf ! (nat off + j - nat offset)
          else fbyte (hist (db ctx)) ino (nat off + j))" if "int j < min l (uint (i_size m) - off)" for j
      using x(2) [OF that] b [OF p(1) [OF that], of ino] p(2) [OF that] by simp
    then show ?thesis using x(1) by blast
  qed
  have B: "vn_read E env ctx' h g out_buf l off = vn_read E env ctx h g out_buf l off"
    if q: "read_request h g m out_buf l off" and g: "fi_no g \<noteq> ino" "extents_ok (hist (db ctx)) (fi_no g)" for h g m out_buf l off
    by (rule read_same [OF q g(2)])
      (use g b extents_ok_other [where H' = "hist (db ctx')" and H = "hist (db ctx)", OF H g(1)] in simp_all)
  show ?thesis unfolding shows_write_def by (intro allI impI conjI; elim conjE; (rule A | rule B); assumption)
qed

end

text \<open>
  C4: synchronised data survives a crash. On a store and a disk that report no failure, a
  write that joins the pending operands of its extents, followed by \<open>vn_fsync\<close>, is durable
  although \<open>vn_fsync\<close> returns an error: whichever state a crash leaves, the volume mounts,
  continues with the same inode number and has the inode record with the size after the
  write. An aligned read of the file on the remounted volume delivers the written bytes, and
  elsewhere the bytes that the file had; and a read of any other file whose extents are in
  order returns what it returned before the write.
\<close>

theorem synced_write_survives_crash:
  assumes "rocksdb_crash_reliable E hist batch S families content synced recov"
    and "heap_get h (inode file) = Inr n" "i_extent_size n = of_nat VIVEFS_EXTENT_SIZE" "buf_mem env"
    and "0 \<le> offset" "0 < len" "offset + len < 2 ^ 63" "len \<le> int (length in_buf)"
    and "extents_ok (hist (db ctx)) (fi_no file)" "write_joins (hist (db ctx)) (fi_no file) len offset"
    and "formatted S (hist (db ctx)) seed" and "next_addr h0 \<noteq> 0"
  shows "\<exists>ctx1 h1 f1 r ctx2 f2 n'. vn_write E env ctx h file in_buf len offset = Inr (len, ctx1, h1, f1) \<and>
    vn_fsync E ctx1 h1 f1 = Inr (r, ctx2, f2) \<and> uint (i_size n') = max (uint (i_size n)) (offset + len) \<and>
    (\<forall>w. families w = UNIV \<and> content w \<in> recov (db ctx2) \<longrightarrow>
      (\<exists>ctx3 w3 h3. vn_mount E S env path w h0 = Inr (Some ctx3, w3, h3) \<and> inode_seed ctx3 = seed \<and>
        hist (db ctx3) meta_cf (inode_key (i_no n)) = entry_put (inode_bytes n') \<and>
        shows_write E hist env ctx (fi_no file) in_buf len offset ctx3))"
proof -
  note C = assms(1)
  have R: "rocksdb_crash E hist batch S families content synced recov" and D: "rocksdb_disk_reliable E hist batch S families content synced"
    using C by (auto dest: rocksdb_crash_reliable.axioms)
  have rel: "rocksdb_reliable E hist batch" using D by (rule rocksdb_disk_reliable.axioms(2))
  have l: "0 \<le> len" using assms(6) by simp
  let ?n = "written_inode env n len offset" and ?b = "write_batch (fi_no file) in_buf len offset"
  from rocksdb_reliable.write_fsync_run [OF rel assms(2-5) l assms(7,8), of ctx] obtain ctx1 h1 f1 r ctx2 f2 where
    1: "vn_write E env ctx h file in_buf len offset = Inr (len, ctx1, h1, f1)" "vn_fsync E ctx1 h1 f1 = Inr (r, ctx2, f2)"
      "hist (db ctx2) data_cf = apply_batch ?b (hist (db ctx)) data_cf"
      "hist (db ctx2) meta_cf = (hist (db ctx) meta_cf)(inode_key (i_no n) := entry_put (inode_bytes ?n))" by blast
  have rc: "recov (db ctx2) \<subseteq> {hist (db ctx2)}"
    by (rule rocksdb_crash.fsync_recov [OF R 1(2)])
      (simp_all add: rocksdb_reliable.flush_succeeds [OF rel] rocksdb_reliable.commit_succeeds [OF rel] rocksdb_reliable.put_succeeds [OF rel])
  have f: "formatted S (hist (db ctx2)) seed" using assms(11) by (simp add: formatted_def 1(4))
  have mt: "\<exists>ctx3 w3 h3. vn_mount E S env path w h0 = Inr (Some ctx3, w3, h3) \<and> inode_seed ctx3 = seed \<and> hist (db ctx3) = hist (db ctx2)"
    if w: "families w = UNIV" "content w \<in> recov (db ctx2)" for w
  proof -
    have c: "content w = hist (db ctx2)" using rc w(2) by blast
    from rocksdb_disk_reliable.mount_run [OF D w(1) f [folded c] assms(12), of env path] show ?thesis using c by auto
  qed
  have "hist (db ctx2) meta_cf (inode_key (i_no n)) = entry_put (inode_bytes ?n)" by (simp add: 1(4))
  moreover have "shows_write E hist env ctx (fi_no file) in_buf len offset ctx3" if "hist (db ctx3) = hist (db ctx2)" for ctx3
    by (rule rocksdb_reliable.batch_shows_write [OF rel assms(5-10)]) (simp add: that 1(3))
  ultimately show ?thesis using 1(1,2) mt size_written_inode [OF assms(5) l assms(7), of env n] by metis
qed

definition sample_wal_ctx :: "waldb ViveFsContext" where
  "sample_wal_ctx = \<lparr>db_path = ''vol'', db = (db sample_mounted, []), root_inode = 1, root_file = mount_root_file 1,
     inode_seed = 12, lazy_time = True, relatime = True\<rparr>"

lemma sample_wal_extents: "extents_ok (wal_hist (db sample_wal_ctx)) ino" "write_joins (wal_hist (db sample_wal_ctx)) ino len offset"
proof -
  have "wal_hist (db sample_wal_ctx) data_cf k = entry_delete" for k
    by (simp add: sample_wal_ctx_def wal_hist_def sample_mounted_def mem_hist_def)
  then show "extents_ok (wal_hist (db sample_wal_ctx)) ino" "write_joins (wal_hist (db sample_wal_ctx)) ino len offset"
    by (simp_all add: extents_ok_def write_joins_def joins_at_def entry_ok_def entry_delete_def base_wf_def)
qed

theorem synced_write_survives_crash_witness:
  "\<exists>ctx1 h1 f1 r ctx2 f2. vn_write (wal_ext no_faults) sample_env sample_wal_ctx (sample_heap_of 0) sample_file ''ABCD'' 4 65536 =
       Inr (4, ctx1, h1, f1) \<and> vn_fsync (wal_ext no_faults) ctx1 h1 f1 = Inr (r, ctx2, f2) \<and>
     (\<forall>w. mem_families w = UNIV \<and> mem_content w \<in> wal_recov (db ctx2) \<longrightarrow>
       (\<exists>ctx3 w3 h3 out' st. vn_mount (wal_ext no_faults) wal_sys sample_env ''vol'' w sample_heap = Inr (Some ctx3, w3, h3) \<and>
         vn_read (wal_ext no_faults) sample_env ctx3 (sample_heap_of 65540) sample_file ''....'' 4 65536 = Inr (4, out', st) \<and>
         out' ! 1 = CHR ''B''))"
proof -
  have f: "formatted wal_sys (wal_hist (db sample_wal_ctx)) 12"
    using sample_mounted_hist(1) by (simp add: formatted_def sample_wal_ctx_def wal_hist_def serialize_superblock_def wal_sys_def)
  have h0: "next_addr sample_heap \<noteq> 0" using sample_heap_fresh by (simp add: heap_fresh_def)
  have p: "heap_get (sample_heap_of 0) (inode sample_file) = Inr (sample_inode_of 0)"
    "i_extent_size (sample_inode_of 0) = of_nat VIVEFS_EXTENT_SIZE" "buf_mem sample_env" "(0 :: int) \<le> 65536" "(0 :: int) < 4"
    "(65536 :: int) + 4 < 2 ^ 63" "4 \<le> int (length ''ABCD'')" by simp_all
  from synced_write_survives_crash [OF wal_crash_reliable.rocksdb_crash_reliable_axioms p sample_wal_extents f h0, of "''vol''"]
  obtain ctx1 h1 f1 r ctx2 f2 n' where
    1: "vn_write (wal_ext no_faults) sample_env sample_wal_ctx (sample_heap_of 0) sample_file ''ABCD'' 4 65536 = Inr (4, ctx1, h1, f1)"
      "vn_fsync (wal_ext no_faults) ctx1 h1 f1 = Inr (r, ctx2, f2)"
    and 2: "\<forall>w. mem_families w = UNIV \<and> mem_content w \<in> wal_recov (db ctx2) \<longrightarrow>
      (\<exists>ctx3 w3 h3. vn_mount (wal_ext no_faults) wal_sys sample_env ''vol'' w sample_heap = Inr (Some ctx3, w3, h3) \<and> inode_seed ctx3 = 12 \<and>
        wal_hist (db ctx3) meta_cf (inode_key (i_no (sample_inode_of 0))) = entry_put (inode_bytes n') \<and>
        shows_write (wal_ext no_faults) wal_hist sample_env sample_wal_ctx (fi_no sample_file) ''ABCD'' 4 65536 ctx3)" by blast
  have q: "read_request (sample_heap_of 65540) sample_file (sample_inode_of 65540) ''....'' 4 65536"
    by (simp add: read_request_def)
  have rd: "\<exists>out' st. vn_read (wal_ext no_faults) sample_env ctx3 (sample_heap_of 65540) sample_file ''....'' 4 65536 = Inr (4, out', st) \<and>
      out' ! 1 = CHR ''B''"
    if "shows_write (wal_ext no_faults) wal_hist sample_env sample_wal_ctx (fi_no sample_file) ''ABCD'' 4 65536 ctx3" for ctx3
  proof -
    from that [unfolded shows_write_def, rule_format, OF q] obtain out' st where
      "vn_read (wal_ext no_faults) sample_env ctx3 (sample_heap_of 65540) sample_file ''....'' 4 65536 = Inr (4, out', st)"
      "\<forall>j. int j < 4 \<longrightarrow> out' ! j = (if (65536 :: int) \<le> 65536 + int j \<and> 65536 + int j < 65536 + 4
         then ''ABCD'' ! (nat 65536 + j - nat 65536) else fbyte (wal_hist (db sample_wal_ctx)) (fi_no sample_file) (nat 65536 + j))" by auto
    then show ?thesis by auto
  qed
  have "\<exists>ctx3 w3 h3 out' st. vn_mount (wal_ext no_faults) wal_sys sample_env ''vol'' w sample_heap = Inr (Some ctx3, w3, h3) \<and>
      vn_read (wal_ext no_faults) sample_env ctx3 (sample_heap_of 65540) sample_file ''....'' 4 65536 = Inr (4, out', st) \<and>
      out' ! 1 = CHR ''B''" if w: "mem_families w = UNIV \<and> mem_content w \<in> wal_recov (db ctx2)" for w
  proof -
    from 2 w obtain ctx3 w3 h3 where m: "vn_mount (wal_ext no_faults) wal_sys sample_env ''vol'' w sample_heap = Inr (Some ctx3, w3, h3)"
      and s: "shows_write (wal_ext no_faults) wal_hist sample_env sample_wal_ctx (fi_no sample_file) ''ABCD'' 4 65536 ctx3" by blast
    from m rd [OF s] show ?thesis by blast
  qed
  then show ?thesis using 1 by blast
qed

end
