(* ===== verification/System.thy ===== *)
theory System
  imports Metadata Crash
begin

text \<open>
  The operations together. \<open>fs_step\<close> is one call on a mounted file system with its in-memory
  inodes, the open files and the references to inodes that the caller holds, on any store,
  also one whose calls fail; \<open>crash_step\<close> adds crashes between calls. The lemmas show that
  every call is a run of the abstract machine of the metadata, and that an invariant of the
  metadata, of the references and of every state a crash may recover holds in every reachable
  state.
\<close>

section \<open>Counted references\<close>

text \<open>
  \<open>rs\<close> lists the addresses of in-memory inodes once for each reference to them: every one is
  allocated and its counter is the number of references. Several open files and the caller
  may share an inode.
\<close>

definition refs_ok :: "hist \<Rightarrow> inode_heap \<Rightarrow> nat list \<Rightarrow> bool" where
  "refs_ok H h rs \<longleftrightarrow> heap_fresh h \<and>
     (\<forall>p\<in>set rs. \<exists>n. heap_get h p = Inr n \<and> unat (ref_cnt n) = count_list rs p \<and> stored_inode H n)"

lemma refs_ok_perm: "(\<And>q. count_list rs q = count_list rs' q) \<Longrightarrow> refs_ok H h rs = refs_ok H h rs'"
proof -
  assume c: "\<And>q. count_list rs q = count_list rs' q"
  then have "set rs = set rs'" by (metis count_list_0_iff subset_antisym subsetI)
  then show ?thesis using c by (simp add: refs_ok_def)
qed

lemma refs_ok_get: "refs_ok H h rs \<Longrightarrow> p \<in> set rs \<Longrightarrow> \<exists>n. heap_get h p = Inr n \<and> unat (ref_cnt n) = count_list rs p \<and> stored_inode H n"
  by (simp add: refs_ok_def)

lemma refs_ok_steps: "meta_step\<^sup>*\<^sup>* (H, s) (H', s') \<Longrightarrow> refs_ok H h rs \<Longrightarrow> refs_ok H' h rs"
  unfolding refs_ok_def using stored_inode_steps by blast

lemma heap_ext_get: "heap_ext h h' \<Longrightarrow> heap_fresh h \<Longrightarrow> heap_get h p = Inr n \<Longrightarrow> heap_get h' p = Inr n"
  using heap_fresh_addr [of h p n] by (auto simp: heap_ext_def heap_get_Inr)

lemma refs_ok_ext: "refs_ok H h rs \<Longrightarrow> heap_ext h h' \<Longrightarrow> refs_ok H h' rs"
  unfolding refs_ok_def using heap_ext_get by (metis heap_ext_def)

lemma refs_ok_addr: "refs_ok H h rs \<Longrightarrow> next_addr h \<le> p \<Longrightarrow> p \<notin> set rs"
  unfolding refs_ok_def using heap_fresh_addr [of h] by (metis not_le)

lemma refs_ok_new:
  assumes "refs_ok H h rs" and "inode_new H h h' p"
  shows "refs_ok H h' (p # rs)"
proof -
  obtain n where n: "heap_get h' p = Inr n" "ref_cnt n = 1" "stored_inode H n" "heap_ext h h'" "next_addr h \<le> p"
    using assms(2) by (auto simp: inode_new_def)
  have p: "p \<notin> set rs" by (rule refs_ok_addr [OF assms(1) n(5)])
  then have "q \<noteq> p" if "q \<in> set rs" for q using that by blast
  then show ?thesis using refs_ok_ext [OF assms(1) n(4)] n(1-3) p by (auto simp: refs_ok_def count_list_0_iff)
qed

lemma heap_fresh_set: "heap_fresh h \<Longrightarrow> heap_get h p = Inr n \<Longrightarrow> heap_fresh (heap_set h p n')"
  using heap_fresh_addr [of h p n] by (auto simp: heap_fresh_def)

lemma refs_ok_cell:
  assumes "refs_ok H h rs" and "heap_get h p = Inr n" and "ref_cnt n' = ref_cnt n" and "stored_inode H n'"
  shows "refs_ok H (heap_set h p n') rs"
proof -
  have p: "p \<noteq> 0" using assms(2) by (simp add: heap_get_Inr)
  have "\<exists>m. heap_get (heap_set h p n') q = Inr m \<and> unat (ref_cnt m) = count_list rs q \<and> stored_inode H m" if "q \<in> set rs" for q
    using refs_ok_get [OF assms(1) that] assms(2-4) p by (cases "q = p") auto
  then show ?thesis using assms(1) heap_fresh_set [OF _ assms(2)] by (simp add: refs_ok_def)
qed

lemma refs_ok_add:
  assumes r: "refs_ok H h rs" and "p \<in> set rs" and l: "length rs < 2 ^ 32 - 1" and g: "heap_get h p = Inr n"
    and n': "ref_cnt n' = ref_cnt n + 1" "stored_inode H n'"
  shows "refs_ok H (heap_set h p n') (p # rs)"
proof -
  have p: "p \<noteq> 0" using g by (simp add: heap_get_Inr)
  have c: "unat (ref_cnt n) = count_list rs p" using refs_ok_get [OF r assms(2)] g by auto
  have "count_list rs p < 2 ^ 32 - 1" using count_le_length [of rs p] l by linarith
  then have u: "unat (ref_cnt n') = Suc (count_list rs p)" using c by (simp add: n'(1) unat_word_ariths)
  have "\<exists>m. heap_get (heap_set h p n') q = Inr m \<and> unat (ref_cnt m) = count_list (p # rs) q \<and> stored_inode H m"
    if "q \<in> set (p # rs)" for q
    using that refs_ok_get [OF r, of q] u n'(2) p by (cases "q = p") auto
  then show ?thesis using r heap_fresh_set [OF _ g] by (simp add: refs_ok_def)
qed

text \<open>Dropping a reference: the inode is freed with the last one, and stays as it was otherwise.\<close>

lemma refs_ok_drop:
  assumes r: "refs_ok H h (p # rs)" and d: "vn_dec_inode_ref h p = Inr h'"
  shows "refs_ok H h' rs"
    and "q \<in> set rs \<Longrightarrow> heap_get h q = Inr n \<Longrightarrow> \<exists>n'. heap_get h' q = Inr n' \<and> i_no n' = i_no n"
    and "if p \<in> set rs then \<exists>n. heap_get h' p = Inr n \<and> unat (ref_cnt n) = count_list rs p else h' = heap_free h p"
proof -
  obtain m where m: "heap_get h p = Inr m" "unat (ref_cnt m) = Suc (count_list rs p)" "stored_inode H m"
    using refs_ok_get [OF r, of p] by auto
  have p: "p \<noteq> 0" using m(1) by (simp add: heap_get_Inr)
  have one: "ref_cnt m = 1 \<longleftrightarrow> p \<notin> set rs"
  proof -
    have "ref_cnt m = 1 \<longleftrightarrow> unat (ref_cnt m) = 1" by (simp add: word_unat_eq_iff)
    then show ?thesis using m(2) by (simp add: count_list_0_iff)
  qed
  have o: "\<exists>n. heap_get h q = Inr n \<and> unat (ref_cnt n) = count_list rs q \<and> stored_inode H n" if "q \<in> set rs" "q \<noteq> p" for q
    using refs_ok_get [OF r, of q] that by auto
  have fr: "heap_fresh h" using r by (simp add: refs_ok_def)
  let ?m = "m\<lparr>ref_cnt := ref_cnt m - 1\<rparr>"
  show "refs_ok H h' rs"
  proof (cases "p \<in> set rs")
    case True
    then have h': "h' = heap_set h p ?m" using d m(1) one by (auto simp: vn_dec_inode_ref_def)
    have "ref_cnt m \<noteq> 0" using m(2) by auto
    then have u: "unat (ref_cnt ?m) = count_list rs p" using m(2) by (simp add: unat_minus_one)
    have "\<exists>n. heap_get h' q = Inr n \<and> unat (ref_cnt n) = count_list rs q \<and> stored_inode H n" if "q \<in> set rs" for q
      using o [OF that] u m(3) p unfolding h' by (cases "q = p") auto
    then show ?thesis using heap_fresh_set [OF fr m(1)] unfolding h' by (simp add: refs_ok_def)
  next
    case False
    then have h': "h' = heap_free h p" using d m(1) one by (auto simp: vn_dec_inode_ref_def)
    have "heap_get h' q = heap_get h q" if "q \<in> set rs" for q using that False by (auto simp: h' heap_free_def heap_get_def)
    then show ?thesis using o False fr unfolding refs_ok_def by (auto simp: h' heap_free_def heap_fresh_def)
  qed
  show "\<exists>n'. heap_get h' q = Inr n' \<and> i_no n' = i_no n" if "q \<in> set rs" "heap_get h q = Inr n"
    using d m(1) one that p by (cases "q = p") (auto simp: vn_dec_inode_ref_def heap_free_def heap_get_def split: if_splits)
  show "if p \<in> set rs then \<exists>n. heap_get h' p = Inr n \<and> unat (ref_cnt n) = count_list rs p else h' = heap_free h p"
    using d m(1) one refs_ok_get [OF \<open>refs_ok H h' rs\<close>, of p] by (auto simp: vn_dec_inode_ref_def)
qed

text \<open>
  The open files \<open>fs\<close> and the references \<open>ps\<close> held by the caller and by the context; every file
  has the number of its inode.
\<close>

definition files_ok :: "hist \<Rightarrow> inode_heap \<Rightarrow> ViveFile list \<Rightarrow> nat list \<Rightarrow> bool" where
  "files_ok H h fs ps \<longleftrightarrow> refs_ok H h (map inode fs @ ps) \<and> (\<forall>f\<in>set fs. \<exists>n. heap_get h (inode f) = Inr n \<and> i_no n = fi_no f)"

lemma files_ok_fresh: "files_ok H h fs ps \<Longrightarrow> heap_fresh h"
  by (simp add: files_ok_def refs_ok_def)

lemma files_ok_live: "files_ok H h fs ps \<Longrightarrow> f \<in> set fs \<Longrightarrow> file_live H h f"
  unfolding files_ok_def file_live_def using refs_ok_get [of H h "map inode fs @ ps" "inode f"] by force

lemma files_ok_held: "files_ok H h fs ps \<Longrightarrow> p \<in> set ps \<Longrightarrow> \<exists>n. heap_get h p = Inr n \<and> stored_inode H n"
  unfolding files_ok_def using refs_ok_get [of H h "map inode fs @ ps" p] by auto

lemma files_ok_steps: "meta_step\<^sup>*\<^sup>* (H, s) (H', s') \<Longrightarrow> files_ok H h fs ps \<Longrightarrow> files_ok H' h fs ps"
  unfolding files_ok_def using refs_ok_steps by blast

lemma files_ok_ext: "files_ok H h fs ps \<Longrightarrow> heap_ext h h' \<Longrightarrow> files_ok H h' fs ps"
  unfolding files_ok_def using refs_ok_ext heap_ext_get by (metis refs_ok_def)

lemma files_ok_ref:
  assumes "files_ok H h fs ps" and "heap_ext h h' \<and> (p \<noteq> 0 \<longrightarrow> inode_new H h h' p)"
  shows "files_ok H h' fs (if p = 0 then ps else p # ps)"
proof (cases "p = 0")
  case False
  then have "refs_ok H h' (p # map inode fs @ ps)" using assms refs_ok_new by (auto simp: files_ok_def)
  moreover have "count_list (p # map inode fs @ ps) q = count_list (map inode fs @ p # ps) q" for q by simp
  ultimately have "refs_ok H h' (map inode fs @ p # ps)" using refs_ok_perm by blast
  then show ?thesis using False files_ok_ext [OF assms(1), of h'] assms(2) by (simp add: files_ok_def)
qed (use assms files_ok_ext in auto)

lemma files_ok_open:
  assumes "files_ok H h fs ps" and "inode_new H h h' (inode f)" and "file_live H h' f"
  shows "files_ok H h' (f # fs) ps"
proof -
  have "heap_ext h h'" using assms(2) by (simp add: inode_new_def)
  from files_ok_ext [OF assms(1) this] refs_ok_new [OF _ assms(2), of "map inode fs @ ps"] assms(1,3)
  show ?thesis by (auto simp: files_ok_def file_live_def)
qed

lemma files_ok_set:
  assumes "files_ok H h fs ps" and g: "heap_get h p = Inr n" and n': "ref_cnt n' = ref_cnt n" "i_no n' = i_no n" "stored_inode H n'"
  shows "files_ok H (heap_set h p n') fs ps"
proof -
  have p: "p \<noteq> 0" using g by (simp add: heap_get_Inr)
  have "\<exists>m. heap_get (heap_set h p n') (inode f) = Inr m \<and> i_no m = fi_no f" if "f \<in> set fs" for f
    using assms(1) that g n'(2) p by (cases "inode f = p") (auto simp: files_ok_def)
  then show ?thesis using refs_ok_cell [OF _ g n'(1,3)] assms(1) by (simp add: files_ok_def)
qed

lemma files_ok_update:
  assumes o: "files_ok H h (xs @ f # ys) ps" and u: "file_update h f h' f'"
  shows "files_ok H h' (xs @ f' # ys) ps"
proof -
  obtain n n' where n: "heap_get h (inode f) = Inr n" "h' = heap_set h (inode f) n'" "ref_cnt n' = ref_cnt n" "i_no n' = i_no n"
    "inode_valid n' = inode_valid n" and f': "inode f' = inode f" "fi_no f' = fi_no f"
    using u by (auto simp: file_update_def)
  have "stored_inode H n" using files_ok_live [OF o, of f] n(1) by (auto simp: file_live_def)
  then have "stored_inode H n'" using n(4,5) by (simp add: stored_inode_def)
  from files_ok_set [OF o n(1,3,4) this] show ?thesis using f' by (simp add: files_ok_def n(2))
qed

lemma files_ok_share:
  assumes o: "files_ok H h fs ps" and p: "p \<in> set ps" and l: "length fs + length ps < 2 ^ 32 - 1" and g: "heap_get h p = Inr n"
    and n': "ref_cnt n' = ref_cnt n + 1" "i_no n' = i_no n" "stored_inode H n'" and f: "inode f = p" "fi_no f = i_no n"
  shows "files_ok H (heap_set h p n') (f # fs) ps"
proof -
  have p0: "p \<noteq> 0" using g by (simp add: heap_get_Inr)
  have "refs_ok H (heap_set h p n') (p # map inode fs @ ps)"
    by (rule refs_ok_add [OF _ _ _ g n'(1,3)]) (use o p l in \<open>simp_all add: files_ok_def\<close>)
  moreover have "\<exists>m. heap_get (heap_set h p n') (inode k) = Inr m \<and> i_no m = fi_no k" if "k \<in> set (f # fs)" for k
    using o that g n'(2) f p0 by (cases "inode k = p") (auto simp: files_ok_def)
  ultimately show ?thesis using f(1) by (simp add: files_ok_def)
qed

lemma files_ok_close:
  assumes o: "files_ok H h (xs @ f # ys) ps" and d: "vn_dec_inode_ref h (inode f) = Inr h'"
  shows "files_ok H h' (xs @ ys) ps"
proof -
  let ?rs = "map inode (xs @ ys) @ ps"
  have "count_list (map inode (xs @ f # ys) @ ps) q = count_list (inode f # ?rs) q" for q by simp
  then have r: "refs_ok H h (inode f # ?rs)" using o refs_ok_perm unfolding files_ok_def by blast
  have "\<exists>n. heap_get h' (inode k) = Inr n \<and> i_no n = fi_no k" if k: "k \<in> set (xs @ ys)" for k
  proof -
    obtain n where "heap_get h (inode k) = Inr n" "i_no n = fi_no k" using o k by (auto simp: files_ok_def)
    then show ?thesis using refs_ok_drop(2) [OF r d, of "inode k" n] k by auto
  qed
  then show ?thesis using refs_ok_drop(1) [OF r d] by (simp add: files_ok_def)
qed

lemma files_ok_drop:
  assumes o: "files_ok H h fs (xs @ p # ys)" and d: "vn_dec_inode_ref h p = Inr h'"
  shows "files_ok H h' fs (xs @ ys)"
proof -
  let ?rs = "map inode fs @ xs @ ys"
  have "count_list (map inode fs @ xs @ p # ys) q = count_list (p # ?rs) q" for q by simp
  then have r: "refs_ok H h (p # ?rs)" using o refs_ok_perm unfolding files_ok_def by blast
  have "\<exists>n. heap_get h' (inode k) = Inr n \<and> i_no n = fi_no k" if k: "k \<in> set fs" for k
  proof -
    obtain n where "heap_get h (inode k) = Inr n" "i_no n = fi_no k" using o k by (auto simp: files_ok_def)
    then show ?thesis using refs_ok_drop(2) [OF r d, of "inode k" n] k by auto
  qed
  then show ?thesis using refs_ok_drop(1) [OF r d] by (simp add: files_ok_def)
qed

section \<open>The whole system\<close>

text \<open>
  A mounted file system: the context, the in-memory inodes, the open files, and the
  references to inodes that are held besides. These are the two of the context to the root
  inode (its own and that of \<open>root_file\<close>), and one for each inode that \<open>vn_create_file\<close>,
  \<open>vn_lookup_inode_no\<close> or \<open>vn_next_inode\<close> has handed out and the caller has not dropped. One step
  is one call that returns; the calls that change nothing (\<open>vn_rename_file\<close>, \<open>vn_ino_of_file\<close>,
  \<open>vn_get_root_inode\<close> and the ones on iterators alone) are left out. \<open>fs_next\<close> takes any
  iterator. In \<open>fs_drop\<close> the caller gives up a reference of its own with \<open>vn_dec_inode_ref\<close>, and
  in \<open>fs_setattr\<close> it writes to the public fields of an inode it holds, as \<open>vn_persist_inode\<close>
  expects. \<open>fs_remount\<close> mounts a volume that holds what has been committed, as after an
  unmount: the heap and the open files are gone. Names hold no zero byte, inode numbers stay
  below \<open>2^56\<close>, and fewer than \<open>2^32 - 1\<close> references are held, so that no counter wraps around.
\<close>

type_synonym 'db fs_state = "'db ViveFsContext \<times> inode_heap \<times> ViveFile list \<times> nat list"

inductive fs_step ::
  "('db, 'tx) ext \<Rightarrow> ('db, 'w) sys \<Rightarrow> ('db \<Rightarrow> hist) \<Rightarrow> ('w \<Rightarrow> cf set) \<Rightarrow> ('w \<Rightarrow> hist) \<Rightarrow>
   'db fs_state \<Rightarrow> 'db fs_state \<Rightarrow> bool"
  for E S hist families content where
  fs_create: "vn_create_file E env ctx h dir name mode uid gid want = Inr (r, p, ctx', h') \<Longrightarrow> c_name name \<Longrightarrow>
    unat (inode_seed ctx) < 2 ^ 56 \<Longrightarrow>
    fs_step E S hist families content (ctx, h, fs, ps) (ctx', h', fs, if p = 0 then ps else p # ps)"
| fs_lookup: "vn_lookup_inode_no E env ctx h dir name want = Inr (r, p, h') \<Longrightarrow> c_name name \<Longrightarrow>
    fs_step E S hist families content (ctx, h, fs, ps) (ctx, h', fs, if p = 0 then ps else p # ps)"
| fs_next: "vn_next_inode E env ctx h it buf_len = Inr (p, name, it', h') \<Longrightarrow>
    fs_step E S hist families content (ctx, h, fs, ps) (ctx, h', fs, if p = 0 then ps else p # ps)"
| fs_drop: "vn_dec_inode_ref h p = Inr h' \<Longrightarrow> p \<noteq> root_inode ctx \<Longrightarrow>
    fs_step E S hist families content (ctx, h, fs, xs @ p # ys) (ctx, h', fs, xs @ ys)"
| fs_setattr: "heap_get h p = Inr n \<Longrightarrow> p \<in> set ps \<Longrightarrow> i_no n' = i_no n \<Longrightarrow> ref_cnt n' = ref_cnt n \<Longrightarrow> inode_valid n' \<Longrightarrow>
    fs_step E S hist families content (ctx, h, fs, ps) (ctx, heap_set h p n', fs, ps)"
| fs_persist: "vn_persist_inode E ctx h p = Inr (r, ctx') \<Longrightarrow> p \<in> set ps \<Longrightarrow>
    fs_step E S hist families content (ctx, h, fs, ps) (ctx', h, fs, ps)"
| fs_unlink: "vn_unlink E env ctx h dir name = Inr (r, ctx', h') \<Longrightarrow> c_name name \<Longrightarrow>
    fs_step E S hist families content (ctx, h, fs, ps) (ctx', h', fs, ps)"
| fs_open: "vn_open_file E env ctx h dir name oflags mode = Inr (fo, ctx', h') \<Longrightarrow> c_name name \<Longrightarrow>
    unat (inode_seed ctx) < 2 ^ 56 \<Longrightarrow>
    fs_step E S hist families content (ctx, h, fs, ps) (ctx', h', case fo of None \<Rightarrow> fs | Some f \<Rightarrow> f # fs, ps)"
| fs_open_by_inode: "vn_open_file_by_inode E ctx h p oflags = Inr (fo, ctx', h') \<Longrightarrow> p \<in> set ps \<Longrightarrow>
    length fs + length ps < 2 ^ 32 - 1 \<Longrightarrow>
    fs_step E S hist families content (ctx, h, fs, ps) (ctx', h', case fo of None \<Rightarrow> fs | Some f \<Rightarrow> f # fs, ps)"
| fs_write: "vn_write E env ctx h f buf len off = Inr (r, ctx', h', f') \<Longrightarrow>
    fs_step E S hist families content (ctx, h, xs @ f # ys, ps) (ctx', h', xs @ f' # ys, ps)"
| fs_writev: "vn_writev E env ctx h f iov off = Inr (r, ctx', h', f') \<Longrightarrow>
    fs_step E S hist families content (ctx, h, xs @ f # ys, ps) (ctx', h', xs @ f' # ys, ps)"
| fs_read: "vn_read E env ctx h f buf len off = Inr (r, buf', h', f') \<Longrightarrow>
    fs_step E S hist families content (ctx, h, xs @ f # ys, ps) (ctx, h', xs @ f' # ys, ps)"
| fs_readv: "vn_readv E env ctx h f iov off = Inr (r, iov', h', f') \<Longrightarrow>
    fs_step E S hist families content (ctx, h, xs @ f # ys, ps) (ctx, h', xs @ f' # ys, ps)"
| fs_fsync: "vn_fsync E ctx h f = Inr (r, ctx', f') \<Longrightarrow>
    fs_step E S hist families content (ctx, h, xs @ f # ys, ps) (ctx', h, xs @ f' # ys, ps)"
| fs_close: "vn_close_file E ctx h f = Inr (r, ctx', h') \<Longrightarrow>
    fs_step E S hist families content (ctx, h, xs @ f # ys, ps) (ctx', h', xs @ ys, ps)"
| fs_flush: "vn_flush_fs S ctx = (r, ctx') \<Longrightarrow>
    fs_step E S hist families content (ctx, h, fs, ps) (ctx', h, fs, ps)"
| fs_remount: "vn_mount E S env path w h0 = Inr (Some ctx', w', h') \<Longrightarrow> families w \<noteq> {} \<Longrightarrow>
    content w = hist (db ctx) \<Longrightarrow> heap_fresh h0 \<Longrightarrow>
    fs_step E S hist families content (ctx, h, fs, ps) (ctx', h', [], [root_inode ctx', root_inode ctx'])"

definition fs_inv :: "('db \<Rightarrow> hist) \<Rightarrow> 'db fs_state \<Rightarrow> bool" where
  "fs_inv hist x \<longleftrightarrow> (case x of (ctx, h, fs, ps) \<Rightarrow>
     meta_inv (hist (db ctx)) (inode_seed ctx) \<and> files_ok (hist (db ctx)) h fs ps)"

lemma fs_invD:
  assumes "fs_inv hist (ctx, h, fs, ps)"
  shows "meta_inv (hist (db ctx)) (inode_seed ctx)" and "files_ok (hist (db ctx)) h fs ps" and "heap_fresh h"
  using assms files_ok_fresh by (auto simp: fs_inv_def)

lemma read_update:
  "vn_read E env ctx h f buf len off = Inr (r, buf', h', f') \<Longrightarrow> file_update h f h' f'"
  "vn_readv E env ctx h f iov off = Inr (r, iov', h', f') \<Longrightarrow> file_update h f h' f'"
proof -
  have fin: "file_update h f h' f'" if "finish_read env h f n = (h', f')" "heap_get h (inode f) = Inr n" for n
  proof (cases "noatime f")
    case True
    then show ?thesis using that file_update_refl [OF that(2)] by (simp add: finish_read_def)
  next
    case False
    then have "h' = heap_set h (inode f) (n\<lparr>i_atime := now env\<rparr>)" "f' = f\<lparr>dirty := True\<rparr>"
      using that by (auto simp: finish_read_def)
    then show ?thesis
      unfolding file_update_def using that(2)
      by (intro conjI exI [of _ n] exI [of _ "n\<lparr>i_atime := now env\<rparr>"]) (simp_all add: inode_valid_def)
  qed
  show "vn_read E env ctx h f buf len off = Inr (r, buf', h', f') \<Longrightarrow> file_update h f h' f'"
    by (auto simp: vn_read_def Let_def split: if_splits intro: fin)
  show "vn_readv E env ctx h f iov off = Inr (r, iov', h', f') \<Longrightarrow> file_update h f h' f'"
    by (auto simp: vn_readv_def Let_def split: if_splits intro: fin)
qed

context rocksdb_disk
begin

lemma mount_any:
  assumes m: "vn_mount E S env path w h = Inr (Some ctx, w', h')" and w: "families w \<noteq> {}" and h: "heap_fresh h"
    and i: "meta_inv (content w) s"
  shows "hist (db ctx) = content w \<and> content w meta_cf INODE_SEED_KEY = entry_put (word_bytes (inode_seed ctx)) \<and> heap_fresh h' \<and>
    (\<exists>cfs w1. OpenDB S path cfs w = (Ok, Some (db ctx), w1)) \<and>
    heap_get h' (root_inode ctx) = Inr ((root_inode_init env)\<lparr>ref_cnt := 2\<rparr>)"
proof -
  let ?p = "next_addr h"
  have p0: "?p \<noteq> 0" using h by (simp add: heap_fresh_def)
  define g where "g = snd (heap_alloc h zero_inode)"
  have al: "heap_alloc h zero_inode = (?p, g)" by (simp add: heap_alloc_def g_def)
  have e: "heap_ext h (heap_set g ?p n)" for n
    unfolding g_def by (rule heap_ext_set [OF heap_ext_alloc [OF h]]) (simp_all add: heap_alloc_def)
  have fl: "mount_fail E S od q v k \<noteq> Inr (Some ctx, w', h')" for od q v k by (auto simp: mount_fail_def)
  obtain s1 od w1 where o: "OpenDB S path [default_cf, meta_cf, data_cf] w = (s1, od, w1)" by (metis prod_cases3)
  have s1: "s1 = Ok" using m fl by (auto simp: vn_mount_def al o split: if_splits)
  then obtain d where d: "od = Some d" "hist d = content w" using open_ok [of path "[default_cf, meta_cf, data_cf]" w od w1] o w by auto
  have mo: "mount_opened E S env path d ?p w1 g = Inr (Some ctx, w', h')"
    using m fl s1 d(1) by (auto simp: vn_mount_def al o split: if_splits)
  obtain s2 v where gt: "Get E d meta_cf INODE_SEED_KEY = (s2, v)" by force
  have s2: "s2 = Ok" using mo fl by (auto simp: mount_opened_def Let_def gt split: if_splits)
  from i obtain s0 :: "64 word" where s0: "content w meta_cf INODE_SEED_KEY = entry_put (word_bytes s0)"
    unfolding meta_inv_def by blast
  then have v: "v = word_bytes s0" using get_ok [of d meta_cf INODE_SEED_KEY v] gt s2 d(2) by simp
  obtain s3 v3 where g3: "Get E d meta_cf SUPERBLOCK_KEY = (s3, v3)" by force
  have "h' = heap_set g ?p ((root_inode_init env)\<lparr>ref_cnt := 2\<rparr>) \<and> db ctx = d \<and> inode_seed ctx = s0 \<and> root_inode ctx = ?p"
    using mo fl s2 v by (auto simp: mount_opened_def Let_def gt g3 deserialize_int64_def load_bytes_def vn_add_inode_ref_def p0 split: if_splits)
  moreover from this have "heap_get h' (root_inode ctx) = Inr ((root_inode_init env)\<lparr>ref_cnt := 2\<rparr>)" using p0 by simp
  ultimately show ?thesis using e d s0 s1 o by (auto simp: heap_ext_def)
qed

text \<open>The two references of the context to the root inode.\<close>

lemma root_refs:
  assumes "heap_get h' p = Inr ((root_inode_init env)\<lparr>ref_cnt := 2\<rparr>)" and "heap_fresh h'"
  shows "files_ok H h' [] [p, p]"
  using assms by (simp add: files_ok_def refs_ok_def stored_inode_def root_inode_init_def inode_valid_def VN_ROOT_INO_def zero_inode_def)

text \<open>Every step is a run of the abstract machine and keeps the invariant.\<close>

lemma flush_fs_hist:
  assumes "vn_flush_fs S ctx = (r, ctx')"
  shows "hist (db ctx') = hist (db ctx) \<and> inode_seed ctx' = inode_seed ctx"
proof -
  obtain s1 d1 where 1: "FlushMem S [meta_cf, data_cf, default_cf] (db ctx) = (s1, d1)" by force
  obtain s2 d2 where 2: "SyncWAL S d1 = (s2, d2)" by force
  show ?thesis using assms flush_mem_hist [OF 1] sync_hist [OF 2] cancel_hist [of d2] by (auto simp: vn_flush_fs_def 1 2 split: if_splits)
qed

lemma fs_inv_run:
  assumes "fs_inv hist (ctx, h, fs, ps)" and "meta_run hist ctx ctx'" and "files_ok (hist (db ctx')) h' fs' ps'"
  shows "meta_run hist (fst (ctx, h, fs, ps)) (fst (ctx', h', fs', ps')) \<and> fs_inv hist (ctx', h', fs', ps')"
  using assms meta_inv_steps [OF assms(2)] by (simp add: fs_inv_def)

lemma sim_ext:
  assumes "fs_inv hist (ctx, h, fs, ps)" and "meta_run hist ctx ctx' \<and> heap_ext h h'"
  shows "meta_run hist (fst (ctx, h, fs, ps)) (fst (ctx', h', fs, ps)) \<and> fs_inv hist (ctx', h', fs, ps)"
  using fs_inv_run [OF assms(1)] files_ok_ext [OF files_ok_steps [OF _ fs_invD(2) [OF assms(1)]]] assms(2) by blast

lemma sim_ref:
  assumes "fs_inv hist (ctx, h, fs, ps)" and "meta_run hist ctx ctx'"
    and "heap_ext h h' \<and> (p \<noteq> 0 \<longrightarrow> inode_new (hist (db ctx')) h h' p)"
  shows "meta_run hist (fst (ctx, h, fs, ps)) (fst (ctx', h', fs, if p = 0 then ps else p # ps)) \<and>
    fs_inv hist (ctx', h', fs, if p = 0 then ps else p # ps)"
  by (rule fs_inv_run [OF assms(1,2) files_ok_ref [OF files_ok_steps [OF assms(2) fs_invD(2) [OF assms(1)]] assms(3)]])

lemma sim_update:
  assumes "fs_inv hist (ctx, h, xs @ f # ys, ps)"
    and "file_live (hist (db ctx)) h f \<Longrightarrow> meta_run hist ctx ctx' \<and> inode_seed ctx' = inode_seed ctx \<and> file_update h f h' f'"
  shows "meta_run hist (fst (ctx, h, xs @ f # ys, ps)) (fst (ctx', h', xs @ f' # ys, ps)) \<and> fs_inv hist (ctx', h', xs @ f' # ys, ps)"
proof -
  note i = fs_invD(2) [OF assms(1)]
  have u: "meta_run hist ctx ctx'" "file_update h f h' f'" using assms(2) files_ok_live [OF i] by auto
  from fs_inv_run [OF assms(1) u(1) files_ok_update [OF files_ok_steps [OF u(1) i] u(2)]] show ?thesis .
qed

lemma sim_open_by_inode:
  assumes i: "fs_inv hist (ctx, h, fs, ps)" and r: "vn_open_file_by_inode E ctx h p oflags = Inr (fo, ctx', h')"
    and p: "p \<in> set ps" and l: "length fs + length ps < 2 ^ 32 - 1"
  shows "meta_run hist (fst (ctx, h, fs, ps)) (fst (ctx', h', case fo of None \<Rightarrow> fs | Some f \<Rightarrow> f # fs, ps)) \<and>
    fs_inv hist (ctx', h', case fo of None \<Rightarrow> fs | Some f \<Rightarrow> f # fs, ps)"
proof -
  obtain n where n: "heap_get h p = Inr n" "stored_inode (hist (db ctx)) n" using files_ok_held [OF fs_invD(2) [OF i] p] by blast
  from open_by_inode_any [OF r n] obtain n' where m: "meta_run hist ctx ctx'" and n': "n' \<in> {n, n\<lparr>i_size := 0\<rparr>}"
    and o: "case fo of None \<Rightarrow> h' = heap_set h p n'
     | Some f \<Rightarrow> inode f = p \<and> fi_no f = i_no n \<and> h' = heap_set h p (n'\<lparr>ref_cnt := ref_cnt n + 1\<rparr>)" by blast
  note f = files_ok_steps [OF m fs_invD(2) [OF i]]
  have s: "stored_inode (hist (db ctx')) n'" using stored_inode_steps [OF m n(2)] n' by auto
  have "files_ok (hist (db ctx')) h' (case fo of None \<Rightarrow> fs | Some f \<Rightarrow> f # fs) ps"
  proof (cases fo)
    case None
    then show ?thesis using files_ok_set [OF f n(1) _ _ s] n' o by auto
  next
    case (Some g)
    then show ?thesis using files_ok_share [OF f p l n(1), of "n'\<lparr>ref_cnt := ref_cnt n + 1\<rparr>" g] s n' o by auto
  qed
  from fs_inv_run [OF i m this] show ?thesis .
qed

lemma fs_step_sim:
  assumes "fs_step E S hist families content x y" and "fs_inv hist x"
  shows "meta_run hist (fst x) (fst y) \<and> fs_inv hist y"
  using assms
proof (induction rule: fs_step.induct)
  case (fs_create env ctx h dir name mode uid gid want r p ctx' h' fs ps)
  from create_any [OF fs_create(1) fs_invD(3) [OF fs_create(4)] fs_create(2,3)] show ?case
    by (intro sim_ref fs_create(4)) blast+
next
  case (fs_lookup env ctx h dir name want r p h' fs ps)
  note i = fs_invD [OF fs_lookup(3)]
  show ?case by (rule sim_ref [OF fs_lookup(3) rtranclp.rtrancl_refl lookup_new [OF i(1) fs_lookup(2) i(3) fs_lookup(1)]])
next
  case (fs_next env ctx h it buf_len p name it' h' fs ps)
  note i = fs_invD [OF fs_next(2)]
  show ?case by (rule sim_ref [OF fs_next(2) rtranclp.rtrancl_refl next_any [OF i(1,3) fs_next(1)]])
next
  case (fs_drop h p h' ctx fs xs ys)
  show ?case by (rule fs_inv_run [OF fs_drop(3) rtranclp.rtrancl_refl files_ok_drop [OF fs_invD(2) [OF fs_drop(3)] fs_drop(1)]])
next
  case (fs_setattr h p n ps n' ctx fs)
  note i = fs_invD(2) [OF fs_setattr(6)]
  have "stored_inode (hist (db ctx)) n'" using files_ok_held [OF i fs_setattr(2)] fs_setattr(1,3,5) by (auto simp: stored_inode_def)
  from fs_inv_run [OF fs_setattr(6) rtranclp.rtrancl_refl files_ok_set [OF i fs_setattr(1,4,3) this]] show ?case .
next
  case (fs_persist ctx h p r ctx' ps fs)
  note i = fs_invD(2) [OF fs_persist(3)]
  obtain n where n: "heap_get h p = Inr n" "stored_inode (hist (db ctx)) n" using files_ok_held [OF i fs_persist(2)] by blast
  have m: "meta_run hist ctx ctx'" using persist_any [OF fs_persist(1) n] by blast
  show ?case by (rule fs_inv_run [OF fs_persist(3) m files_ok_steps [OF m i]])
next
  case (fs_unlink env ctx h dir name r ctx' h' fs ps)
  note i = fs_invD [OF fs_unlink(3)]
  show ?case by (intro sim_ext fs_unlink(3) unlink_any [OF fs_unlink(1) i(1,3) fs_unlink(2)])
next
  case (fs_open env ctx h dir name oflags mode fo ctx' h' fs ps)
  note i = fs_invD [OF fs_open(4)]
  note o = open_any [OF fs_open(1) i(1,3) fs_open(2,3)]
  then have m: "meta_run hist ctx ctx'" "heap_ext h h'" by blast+
  note f' = files_ok_steps [OF m(1) i(2)]
  have "files_ok (hist (db ctx')) h' (case fo of None \<Rightarrow> fs | Some f \<Rightarrow> f # fs) ps"
    using files_ok_ext [OF f' m(2)] files_ok_open [OF f'] o by (cases fo) auto
  then show ?case by (rule fs_inv_run [OF fs_open(4) m(1)])
next
  case (fs_open_by_inode ctx h p oflags fo ctx' h' ps fs)
  show ?case by (rule sim_open_by_inode [OF fs_open_by_inode(4,1,2,3)])
next
  case (fs_write env ctx h f buf len off r ctx' h' f' xs ys ps)
  show ?case by (rule sim_update [OF fs_write(2) write_any [OF fs_write(1)]])
next
  case (fs_writev env ctx h f iov off r ctx' h' f' xs ys ps)
  show ?case by (rule sim_update [OF fs_writev(2) writev_any [OF fs_writev(1)]])
next
  case (fs_read env ctx h f buf len off r buf' h' f' xs ys ps)
  show ?case by (rule sim_update [OF fs_read(2)]) (simp add: read_update(1) [OF fs_read(1)])
next
  case (fs_readv env ctx h f iov off r iov' h' f' xs ys ps)
  show ?case by (rule sim_update [OF fs_readv(2)]) (simp add: read_update(2) [OF fs_readv(1)])
next
  case (fs_fsync ctx h f r ctx' f' xs ys ps)
  show ?case by (rule sim_update [OF fs_fsync(2) fsync_any [OF fs_fsync(1)]])
next
  case (fs_close ctx h f r ctx' h' xs ys ps)
  note i = fs_invD(2) [OF fs_close(2)]
  have m: "meta_run hist ctx ctx'" "vn_dec_inode_ref h (inode f) = Inr h'"
    using close_any [OF files_ok_live [OF i, of f]] fs_close(1) by auto
  show ?case by (rule fs_inv_run [OF fs_close(2) m(1) files_ok_close [OF files_ok_steps [OF m(1) i] m(2)]])
next
  case (fs_flush ctx r ctx' h fs ps)
  have "hist (db ctx') = hist (db ctx)" "inode_seed ctx' = inode_seed ctx"
    using flush_fs_hist [OF fs_flush(1)] by blast+
  then show ?case using fs_flush(2) by (simp add: fs_inv_def)
next
  case (fs_remount env path w h0 ctx' w' h' ctx h fs ps)
  have i: "meta_inv (content w) (inode_seed ctx)" using fs_remount(3,5) by (simp add: fs_inv_def)
  note o = mount_any [OF fs_remount(1,2,4) i, unfolded fs_remount(3)]
  then have "meta_step (hist (db ctx), inode_seed ctx) (hist (db ctx'), inode_seed ctx')"
    by (intro meta_step.restart) simp_all
  then have m: "meta_run hist ctx ctx'" by (rule r_into_rtranclp)
  show ?case using o root_refs by (intro fs_inv_run [OF fs_remount(5) m]) blast
qed

end

text \<open>Opening a stored name on a store that reports no failure.\<close>

context rocksdb_reliable
begin

lemma open_stored:
  assumes e: "hist (db ctx) meta_cf (entry_key dir name) = entry_put (word_bytes ino)"
    and r: "hist (db ctx) meta_cf (inode_key ino) = entry_put (inode_bytes n)" "inode_valid n"
    and m: "inode_mem env (next_addr h)" and h: "heap_fresh h" and t: "\<not> has_flag oflags O_TRUNC"
  shows "\<exists>f h'. vn_open_file E env ctx h dir name oflags mode = Inr (Some f, ctx, h') \<and> fi_no f = i_no n \<and>
    heap_get h' (inode f) = Inr (n\<lparr>ref_cnt := 1\<rparr>)"
proof -
  let ?p = "next_addr h" and ?n = "n\<lparr>ref_cnt := 1\<rparr>"
  let ?h = "snd (heap_alloc h ?n)"
  have p: "?p \<noteq> 0" using h by (simp add: heap_fresh_def)
  have oi: "open_ino E env ctx h dir name oflags mode = Inr (Some ino, ctx, h)"
    using get_put [OF e] by (simp add: open_ino_def format_printf load_bytes_def flip: entry_key_def)
  have g: "heap_get ?h ?p = Inr ?n" using p by (simp add: heap_alloc_def heap_get_def)
  have "vn_open_file E env ctx h dir name oflags mode =
      Inr (Some (new_ViveFile\<lparr>fi_no := i_no n, inode := ?p, noatime := has_flag oflags O_NOATIME\<rparr>), ctx, ?h)"
    using get_put [OF r(1)] deserialize_inode_bytes [OF r(2) m] open_plain [OF t g, of E ctx] dec_after_add [OF g] p
    by (simp add: vn_open_file_def oi)
  then show ?thesis using g by auto
qed

end

section \<open>A formatted file system\<close>

lemma meta_inv_mkfs: "meta_inv (mkfs_hist S) VN_FIRST_USER_INO"
proof -
  have "mkfs_hist S meta_cf (entry_key d nm) = entry_delete" for d nm by (simp add: entry_key_def)
  moreover have "mkfs_hist S meta_cf [] = entry_delete" by (simp add: mkfs_hist_def INODE_SEED_KEY_def SUPERBLOCK_KEY_def)
  moreover have "mkfs_hist S meta_cf INODE_SEED_KEY = entry_put (word_bytes VN_FIRST_USER_INO)" by (simp add: mkfs_hist_def)
  ultimately show ?thesis
    by (auto simp: meta_inv_def inode_recs_def names_lead_def names_own_def big_keys_def VN_FIRST_USER_INO_def dest: sym)
qed

text \<open>
  A crash comes at any time: what is mounted next is one of the states that the store may
  recover. The heap and the open files are gone.
\<close>

inductive crash_step ::
  "('db, 'tx) ext \<Rightarrow> ('db, 'w) sys \<Rightarrow> ('db \<Rightarrow> hist) \<Rightarrow> ('w \<Rightarrow> cf set) \<Rightarrow> ('w \<Rightarrow> hist) \<Rightarrow> ('db \<Rightarrow> hist set) \<Rightarrow>
   'db fs_state \<Rightarrow> 'db fs_state \<Rightarrow> bool"
  for E S hist families content recov where
  call: "fs_step E S hist families content x y \<Longrightarrow> crash_step E S hist families content recov x y"
| crash: "vn_mount E S env path w h0 = Inr (Some ctx', w', h') \<Longrightarrow> families w \<noteq> {} \<Longrightarrow>
    content w \<in> recov (db ctx) \<Longrightarrow> heap_fresh h0 \<Longrightarrow> 
    crash_step E S hist families content recov (ctx, h, fs, ps) (ctx', h', [], [root_inode ctx', root_inode ctx'])"

text \<open>Every state that may be recovered keeps the invariant of the metadata, with a seed of its own.\<close>

definition recov_inv :: "('db \<Rightarrow> hist set) \<Rightarrow> 'db fs_state \<Rightarrow> bool" where
  "recov_inv recov x \<longleftrightarrow> (\<forall>H\<in>recov (db (fst x)). \<exists>s. meta_inv H s)"

text \<open>\<open>y\<close> is reached by calls, remounts and crashes after mounting a volume that has just been formatted.\<close>

definition fs_reached ::
  "('db, 'tx) ext \<Rightarrow> ('db, 'w) sys \<Rightarrow> ('db \<Rightarrow> hist) \<Rightarrow> ('w \<Rightarrow> cf set) \<Rightarrow> ('w \<Rightarrow> hist) \<Rightarrow> ('db \<Rightarrow> hist set) \<Rightarrow>
   'db fs_state \<Rightarrow> bool" where
  "fs_reached E S hist families content recov y \<longleftrightarrow> (\<exists>env path w h0 ctx w' h.
     families w \<noteq> {} \<and> content w = mkfs_hist S \<and> heap_fresh h0 \<and> vn_mount E S env path w h0 = Inr (Some ctx, w', h) \<and>
     (crash_step E S hist families content recov)\<^sup>*\<^sup>* (ctx, h, [], [root_inode ctx, root_inode ctx]) y)"

context rocksdb_crash
begin

lemma recov_inv_run:
  assumes "one_commit E (db ctx) (db ctx')" and "recov_inv recov (ctx, h, fs, ps)" and "fs_inv hist (ctx', h', fs', ps')"
  shows "recov_inv recov (ctx', h', fs', ps')"
  using one_commit_recov [OF assms(1)] assms(2,3) unfolding recov_inv_def fs_inv_def by auto

lemma mount_inv:
  assumes m: "vn_mount E S env path w h0 = Inr (Some ctx, w', h')" "families w \<noteq> {}" "heap_fresh h0" and i: "meta_inv (content w) s"
  shows "fs_inv hist (ctx, h', [], [root_inode ctx, root_inode ctx])" and "recov_inv recov (ctx, h', [], [root_inode ctx, root_inode ctx])"
proof -
  note o = mount_any [OF m i]
  have "meta_step (content w, s) (hist (db ctx), inode_seed ctx)" using o by (intro meta_step.restart) simp_all
  then have "meta_step\<^sup>*\<^sup>* (content w, s) (hist (db ctx), inode_seed ctx)" by (rule r_into_rtranclp)
  from meta_inv_steps [OF this] i have 1: "meta_inv (hist (db ctx)) (inode_seed ctx)" by simp
  then show "fs_inv hist (ctx, h', [], [root_inode ctx, root_inode ctx])" using o root_refs by (simp add: fs_inv_def)
  obtain cfs w1 where "OpenDB S path cfs w = (Ok, Some (db ctx), w1)" using o by blast
  from recov_open [OF this] show "recov_inv recov (ctx, h', [], [root_inode ctx, root_inode ctx])" using 1 by (auto simp: recov_inv_def)
qed

lemma open_recov:
  assumes r: "vn_open_file E env ctx h dir name oflags mode = Inr (fo, ctx', h')"
    and inv: "fs_inv hist (ctx, h, fs, ps)" "recov_inv recov (ctx, h, fs, ps)" and c: "c_name name" "unat (inode_seed ctx) < 2 ^ 56"
    and inv': "fs_inv hist (ctx', h', fs', ps')"
  shows "recov_inv recov (ctx', h', fs', ps')"
proof -
  have i: "meta_inv (hist (db ctx)) (inode_seed ctx)" and h: "heap_fresh h" using fs_invD [OF inv(1)] by blast+
  from open_commits [OF r h] obtain k c1 h1 where 1: "open_ino E env ctx h dir name oflags mode = Inr (k, c1, h1)"
    "one_commit E (db ctx) (db c1)" "one_commit E (db c1) (db ctx')" by blast
  have "meta_run hist ctx c1" using open_ino_any [OF 1(1) i h c] by blast
  from meta_inv_steps [OF this] i have "meta_inv (hist (db c1)) (inode_seed c1)" by simp
  then have "recov_inv recov (c1, h, fs, ps)" using one_commit_recov [OF 1(2)] inv(2) by (auto simp: recov_inv_def)
  from recov_inv_run [OF 1(3) this inv'] show ?thesis .
qed

lemma fs_step_recov:
  assumes "fs_step E S hist families content x y" and "fs_inv hist x" and "recov_inv recov x"
  shows "recov_inv recov y"
proof -
  have "fs_inv hist y" using fs_step_sim [OF assms(1,2)] by blast
  with assms show ?thesis
  proof (induction rule: fs_step.induct)
    case (fs_create env ctx h dir name mode uid gid want r p ctx' h' fs ps)
    have "heap_fresh h" by (rule fs_invD(3) [OF fs_create(4)])
    from recov_inv_run [OF create_commits [OF fs_create(1) this] fs_create(5,6)] show ?case .
  next
    case (fs_unlink env ctx h dir name r ctx' h' fs ps)
    from recov_inv_run [OF unlink_commits [OF fs_unlink(1)] fs_unlink(4,5)] show ?case .
  next
    case (fs_open env ctx h dir name oflags mode fo ctx' h' fs ps)
    from open_recov [OF fs_open(1,4,5,2,3,6)] show ?case .
  next
    case (fs_open_by_inode ctx h p oflags fo ctx' h' ps fs)
    from recov_inv_run [OF open_by_inode_commits [OF fs_open_by_inode(1)] fs_open_by_inode(5,6)] show ?case .
  next
    case (fs_persist ctx h p r ctx' ps fs)
    from recov_inv_run [OF persist_commits [OF fs_persist(1)] fs_persist(4,5)] show ?case .
  next
    case (fs_flush ctx r ctx' h fs ps)
    then show ?case using flush_fs_recov [OF fs_flush(1)] by (auto simp: recov_inv_def fs_inv_def)
  next
    case (fs_write env ctx h f buf len off r ctx' h' f' xs ys ps)
    from recov_inv_run [OF write_commits(1) [OF fs_write(1)] fs_write(3,4)] show ?case .
  next
    case (fs_writev env ctx h f iov off r ctx' h' f' xs ys ps)
    from recov_inv_run [OF write_commits(2) [OF fs_writev(1)] fs_writev(3,4)] show ?case .
  next
    case (fs_fsync ctx h f r ctx' f' xs ys ps)
    from recov_inv_run [OF fsync_commits [OF fs_fsync(1)] fs_fsync(3,4)] show ?case .
  next
    case (fs_close ctx h f r ctx' h' xs ys ps)
    from recov_inv_run [OF close_commits [OF fs_close(1)] fs_close(3,4)] show ?case .
  next
    case (fs_remount env path w h0 ctx' w' h' ctx h fs ps)
    have "meta_inv (content w) (inode_seed ctx)" using fs_remount(3,5) by (simp add: fs_inv_def)
    from mount_inv(2) [OF fs_remount(1,2,4) this] show ?case .
  qed (simp_all add: recov_inv_def)
qed

lemma fs_step_data:
  assumes "fs_step E S hist families content x y" and "fs_inv hist x" and "ino \<notin> fi_no ` (set (fst (snd (snd x))) \<union> set (fst (snd (snd y))))"
  shows "same_data ino (hist (db (fst x))) (hist (db (fst y)))"
  using assms
proof (induction rule: fs_step.induct)
  case (fs_create env ctx h dir name mode uid gid want r p ctx' h' fs ps)
  have "heap_fresh h" by (rule fs_invD(3) [OF fs_create(4)])
  from create_data [OF fs_create(1) this] show ?case by (simp add: same_data_eq)
next
  case (fs_unlink env ctx h dir name r ctx' h' fs ps)
  from unlink_outcome(1) [OF fs_unlink(1)] show ?case by (simp add: same_data_eq)
next
  case (fs_open env ctx h dir name oflags mode fo ctx' h' fs ps)
  have "heap_fresh h" by (rule fs_invD(3) [OF fs_open(4)])
  from open_data [OF fs_open(1) this, of ino] fs_open(5) show ?case by (cases fo) auto
next
  case (fs_open_by_inode ctx h p oflags fo ctx' h' ps fs)
  from open_by_inode_data [OF fs_open_by_inode(1), of ino] fs_open_by_inode(5) show ?case by (cases fo) auto
next
  case (fs_persist ctx h p r ctx' ps fs)
  obtain n where n: "heap_get h p = Inr n" "stored_inode (hist (db ctx)) n"
    using files_ok_held [OF fs_invD(2) [OF fs_persist(3)] fs_persist(2)] by blast
  from persist_any [OF fs_persist(1) n] show ?case by (simp add: same_data_eq)
next
  case (fs_flush ctx r ctx' h fs ps)
  from flush_fs_recov [OF fs_flush(1)] show ?case by (simp add: same_data_def)
next
  case (fs_write env ctx h f buf len off r ctx' h' f' xs ys ps)
  then show ?case using write_data(1) [OF _ fs_write(1)] by simp
next
  case (fs_writev env ctx h f iov off r ctx' h' f' xs ys ps)
  then show ?case using write_data(2) [OF _ fs_writev(1)] by simp
next
  case (fs_fsync ctx h f r ctx' f' xs ys ps)
  from fsync_data [OF fs_fsync(1)] show ?case by (simp add: same_data_eq)
next
  case (fs_close ctx h f r ctx' h' xs ys ps)
  then show ?case by (auto simp: vn_close_file_def same_data_eq dest: fsync_data)
next
  case (fs_remount env path w h0 ctx' w' h' ctx h fs ps)
  have "meta_inv (content w) (inode_seed ctx)" using fs_remount(3,5) by (simp add: fs_inv_def)
  from mount_any [OF fs_remount(1,2,4) this] fs_remount(3) show ?case by (simp add: same_data_def)
qed (simp_all add: same_data_def)

lemma crash_step_inv:
  assumes "crash_step E S hist families content recov x y" and "fs_inv hist x \<and> recov_inv recov x"
  shows "fs_inv hist y \<and> recov_inv recov y"
  using assms
proof (induction rule: crash_step.induct)
  case (call x y)
  then show ?case using fs_step_sim fs_step_recov by blast
next
  case (crash env path w h0 ctx' w' h' ctx h fs ps)
  then obtain s where "meta_inv (content w) s" by (auto simp: recov_inv_def)
  from mount_inv [OF crash(1,2,4) this] show ?case by blast
qed

lemma reached_inv:
  assumes "fs_reached E S hist families content recov y"
  shows "fs_inv hist y \<and> recov_inv recov y"
proof -
  from assms obtain env path w h0 ctx w' h where m: "families w \<noteq> {}" "content w = mkfs_hist S" "heap_fresh h0"
    "vn_mount E S env path w h0 = Inr (Some ctx, w', h)"
    and st: "(crash_step E S hist families content recov)\<^sup>*\<^sup>* (ctx, h, [], [root_inode ctx, root_inode ctx]) y" unfolding fs_reached_def by blast
  have "fs_inv hist (ctx, h, [], [root_inode ctx, root_inode ctx]) \<and> recov_inv recov (ctx, h, [], [root_inode ctx, root_inode ctx])"
    using mount_inv [OF m(4,1,3), unfolded m(2), OF meta_inv_mkfs] by blast
  with st show ?thesis by (induction rule: rtranclp_induct) (use crash_step_inv in blast)+
qed

end

lemma reached_step:
  "fs_reached E S hist families content recov x \<Longrightarrow> crash_step E S hist families content recov x y \<Longrightarrow>
   fs_reached E S hist families content recov y"
  unfolding fs_reached_def by (meson rtranclp.rtrancl_into_rtrancl)

text \<open>The loops of reading and writing can only run out of their buffers.\<close>

lemma write_extents_fault: "write_extents E ino es b len off end_ext index bo tx = Inl e \<Longrightarrow> e = OutOfBounds"
proof (induction "nat (end_ext - index)" arbitrary: index bo tx rule: less_induct)
  case less
  show ?case
    using less.prems less.hyps [of "index + 1"]
    by (subst (asm) write_extents.simps) (auto simp: Let_def load_bytes_def split: if_splits)
qed

lemma read_extents_fault: "read_extents E d ino es len off end_ext index bo b = Inl e \<Longrightarrow> e = OutOfBounds"
proof (induction "nat (end_ext - index)" arbitrary: index bo b rule: less_induct)
  case less
  obtain v where "Get E d data_cf (extent_key index ino) = v" by blast
  then show ?case
    using less.prems less.hyps [of "index + 1"]
    by (subst (asm) read_extents.simps)
      (cases v, auto simp: Let_def read_segment_def load_bytes_def store_bytes_def split: if_splits)
qed

lemma live_no_dangling:
  assumes "file_live H h f"
  shows "vn_write E env ctx h f b len off = Inl e \<Longrightarrow> e \<in> {OutOfBounds, DivByZero}"
    and "vn_read E env ctx h f b len off = Inl e \<Longrightarrow> e \<in> {OutOfBounds, DivByZero}"
proof -
  obtain n where n: "heap_get h (inode f) = Inr n" using assms by (auto simp: file_live_def)
  show "vn_write E env ctx h f b len off = Inl e \<Longrightarrow> e \<in> {OutOfBounds, DivByZero}"
    by (cases "write_extents E (fi_no f) (uint (i_extent_size n)) b len off (end_ext_of (uint (i_extent_size n)) len off)
          (off sdiv uint (i_extent_size n)) 0 (BeginTransaction E (db ctx))")
      (auto simp: vn_write_def n Let_def dest: write_extents_fault split: if_splits)
  show "vn_read E env ctx h f b len off = Inl e \<Longrightarrow> e \<in> {OutOfBounds, DivByZero}"
    by (cases "read_extents E (db ctx) (fi_no f) (uint (i_extent_size n)) (read_len n len off) off
          (end_ext_of (uint (i_extent_size n)) len off) (off sdiv uint (i_extent_size n)) 0 b")
      (auto simp: vn_read_def n Let_def dest: read_extents_fault split: if_splits)
qed

section \<open>Properties\<close>

text \<open>The inode of a stored name.\<close>

lemma stored_name:
  assumes i: "meta_inv H s" and c: "c_name name" and e: "H meta_cf (entry_key dir name) \<noteq> entry_delete"
  obtains ino n where "H meta_cf (entry_key dir name) = entry_put (word_bytes ino)" and "12 \<le> unat ino"
    and "H meta_cf (inode_key ino) = entry_put (inode_bytes n)" and "inode_valid n" and "i_no n = ino" and "unat ino < unat s"
proof -
  have "names_lead H" using i by (simp add: meta_inv_def)
  then obtain ino where 1: "12 \<le> unat ino" "unat ino < 2 ^ 56" "H meta_cf (entry_key dir name) = entry_put (word_bytes ino)"
    "H meta_cf (inode_key ino) \<noteq> entry_delete" using c e unfolding names_lead_def by blast
  from i obtain s0 where s0: "unat s0 \<le> unat s" "inode_recs H s0" unfolding meta_inv_def by blast
  with 1(2,4) obtain n where n: "H meta_cf (inode_key ino) = entry_put (inode_bytes n)" "inode_valid n" "i_no n = ino"
    "unat ino < unat s0" unfolding inode_recs_def by blast
  have "unat ino < unat s" using n(4) s0(1) by linarith
  from that [OF 1(3,1) n(1-3) this] show ?thesis .
qed

text \<open>A sample run: the file \<open>a\<close> is created and opened on a new file system.\<close>

abbreviation wal_step :: "waldb fs_state \<Rightarrow> waldb fs_state \<Rightarrow> bool" where
  "wal_step \<equiv> fs_step (wal_ext no_faults) wal_sys wal_hist mem_families mem_content"

abbreviation wal_reached :: "waldb fs_state \<Rightarrow> bool" where
  "wal_reached \<equiv> fs_reached (wal_ext no_faults) wal_sys wal_hist mem_families mem_content wal_recov"

lemma sample_start:
  obtains ctx h rs where "wal_reached (ctx, h, [], rs)" and "wal_hist (db ctx) = mkfs_hist wal_sys" and "inode_seed ctx = 12" and "heap_fresh h"
    and "length rs = 2"
proof -
  let ?w = "([default_cf, meta_cf, data_cf], db sample_mounted)"
  have w: "mem_families ?w = UNIV" "mem_content ?w = mkfs_hist wal_sys"
    by (auto simp: mem_families_def mem_content_def sample_mounted_def mem_hist_def mkfs_hist_def serialize_superblock_def
        wal_sys_def mem_sys_def fun_eq_iff VN_FIRST_USER_INO_def intro: cf.exhaust)
  have f: "formatted wal_sys (mem_content ?w) 12" using formatted_mkfs [of wal_sys] w(2) by (simp add: VN_FIRST_USER_INO_def)
  from wal_disk_reliable.mount_run [OF w(1) f, of sample_heap sample_env "''vol''"] sample_heap_fresh
  obtain ctx w' h where m: "vn_mount (wal_ext no_faults) wal_sys sample_env ''vol'' ?w sample_heap = Inr (Some ctx, w', h)"
    by (auto simp: heap_fresh_def)
  have "mem_families ?w \<noteq> {}" using w(1) by simp
  note r = this w(2) sample_heap_fresh m
  have "wal_reached (ctx, h, [], [root_inode ctx, root_inode ctx])" unfolding fs_reached_def using r by blast
  then show ?thesis
    using that wal_disk.mount_any [OF m r(1,3), unfolded w(2), OF meta_inv_mkfs] by (simp add: mkfs_hist_def VN_FIRST_USER_INO_def)
qed

lemma sample_open_step:
  obtains ctx h rs f ctx' h' n where "wal_reached (ctx, h, [], rs)" and "inode_seed ctx = 12" and "wal_step (ctx, h, [], rs) (ctx', h', [f], rs)"
    and "fi_no f = 12" and "wal_hist (db ctx') meta_cf (entry_key 2 ''a'') = entry_put (word_bytes (12 :: 64 word))"
    and "wal_hist (db ctx') meta_cf (inode_key 12) = entry_put (inode_bytes n)" and "inode_valid n" and "i_no n = 12" and "length rs = 2"
proof -
  obtain ctx h rs where c: "wal_reached (ctx, h, [], rs)" "wal_hist (db ctx) = mkfs_hist wal_sys" "inode_seed ctx = 12" "heap_fresh h"
    "length rs = 2" by (rule sample_start)
  have fl: "has_flag O_CREAT O_CREAT" "\<not> has_flag O_CREAT O_TRUNC" by (simp_all add: has_flag_def O_CREAT_def O_TRUNC_def)
  have s: "unat (inode_seed ctx) < 2 ^ 56" "c_name ''a''" "\<forall>a. inode_mem sample_env a" "unat (12 :: 64 word) < 2 ^ 56"
    "wal_hist (db ctx) meta_cf (printf_ld_s (sint (2 :: 64 word)) ''a'') = entry_delete"
    by (simp_all add: c(2,3))
  let ?n = "created_inode sample_env 12 420 0 0"
  from wal_reliable.open_creates [OF s(5) fl s(3) c(4) s(2,1), of 420]
  obtain f ctx' h' where o: "vn_open_file (wal_ext no_faults) sample_env ctx h 2 ''a'' O_CREAT 420 =
      Inr (Some f, ctx', h')" "fi_no f = 12"
    "wal_hist (db ctx') = apply_batch (create_batch 2 ''a'' ?n) (wal_hist (db ctx))" unfolding c(3) by blast
  have u: "unat (i_no ?n) < 2 ^ 56" using s(4) by simp
  note b = apply_create_batch [OF s(2) u, where parent_ino = 2 and H = "wal_hist (db ctx)", folded o(3)]
  have "wal_step (ctx, h, [], rs) (ctx', h', case Some f of None \<Rightarrow> [] | Some f \<Rightarrow> [f], rs)"
    by (rule fs_step.fs_open [OF o(1) s(2,1)])
  then have st: "wal_step (ctx, h, [], rs) (ctx', h', [f], rs)" by simp
  have "wal_hist (db ctx') meta_cf (entry_key 2 ''a'') = entry_put (word_bytes (12 :: 64 word))"
    "wal_hist (db ctx') meta_cf (inode_key 12) = entry_put (inode_bytes ?n)" using b(1,2) by (simp_all add: entry_key_def)
  then show ?thesis by (rule that [OF c(1,3) st o(2)]) (use c(5) in simp_all)
qed

lemma sample_open_reached:
  obtains f ctx' h' rs n where "wal_reached (ctx', h', [f], rs)" and "fi_no f = 12"
    and "wal_hist (db ctx') meta_cf (entry_key 2 ''a'') = entry_put (word_bytes (12 :: 64 word))"
    and "wal_hist (db ctx') meta_cf (inode_key 12) = entry_put (inode_bytes n)" and "inode_valid n" and "i_no n = 12" and "length rs = 2"
proof -
  obtain ctx h rs f ctx' h' n where s: "wal_reached (ctx, h, [], rs)" "inode_seed ctx = 12" "wal_step (ctx, h, [], rs) (ctx', h', [f], rs)"
    and f: "fi_no f = 12"
    "wal_hist (db ctx') meta_cf (entry_key 2 ''a'') = entry_put (word_bytes (12 :: 64 word))"
    "wal_hist (db ctx') meta_cf (inode_key 12) = entry_put (inode_bytes n)" "inode_valid n" "i_no n = 12" "length rs = 2" by (rule sample_open_step)
  have "wal_reached (ctx', h', [f], rs)" by (rule reached_step [OF s(1) crash_step.call [OF s(3)]])
  then show ?thesis using f by (rule that)
qed

text \<open>Looked up and opened by its inode, the file \<open>a\<close> is open twice, and the second inode has two references.\<close>

lemma sample_share_reached:
  obtains f g ctx h rs n where "wal_reached (ctx, h, [g, f], inode g # rs)" and "fi_no g = 12" and "heap_get h (inode g) = Inr n"
    and "ref_cnt n = 2"
proof -
  obtain f ctx h rs n where s: "wal_reached (ctx, h, [f], rs)"
    "wal_hist (db ctx) meta_cf (entry_key 2 ''a'') = entry_put (word_bytes (12 :: 64 word))"
    "wal_hist (db ctx) meta_cf (inode_key 12) = entry_put (inode_bytes n)" "inode_valid n" "i_no n = 12"
    and l: "length rs = 2"
    by (rule sample_open_reached)
  have "heap_fresh h" by (rule fs_invD(3)) (use wal_crash.reached_inv [OF s(1)] in blast)
  then have p: "next_addr h \<noteq> 0" by (simp add: heap_fresh_def)
  have m: "inode_mem sample_env (next_addr h)" by simp
  let ?p = "next_addr h" and ?h = "snd (heap_alloc h (n\<lparr>ref_cnt := 1\<rparr>))"
  have "vn_lookup_inode_no (wal_ext no_faults) sample_env ctx h 2 ''a'' True = Inr (sint (12 :: 64 word), ?p, ?h)"
    by (rule wal_reliable.lookup_present(1) [OF s(2) [unfolded entry_key_def] s(3,4) m p])
  from fs_step.fs_lookup [OF this] p have "wal_step (ctx, h, [f], rs) (ctx, ?h, [f], ?p # rs)" by simp
  from reached_step [OF s(1) crash_step.call [OF this]] have 1: "wal_reached (ctx, ?h, [f], ?p # rs)" .
  have g: "heap_get ?h ?p = Inr (n\<lparr>ref_cnt := 1\<rparr>)" using p by (simp add: heap_alloc_def heap_get_def)
  have t: "\<not> has_flag 0 O_TRUNC" by (simp add: has_flag_def)
  let ?g = "new_ViveFile\<lparr>fi_no := 12, inode := ?p, noatime := has_flag 0 O_NOATIME\<rparr>" and ?h' = "heap_set ?h ?p (n\<lparr>ref_cnt := 2\<rparr>)"
  have "vn_open_file_by_inode (wal_ext no_faults) ctx ?h ?p 0 = Inr (Some ?g, ctx, ?h')" using open_plain [OF t g] s(5) by simp
  from fs_step.fs_open_by_inode [OF this, of "?p # rs" "[f]"] l
  have "wal_step (ctx, ?h, [f], ?p # rs) (ctx, ?h', [?g, f], inode ?g # rs)" by simp
  from reached_step [OF 1 crash_step.call [OF this]] have "wal_reached (ctx, ?h', [?g, f], inode ?g # rs)" .
  then show ?thesis by (rule that [where n = "n\<lparr>ref_cnt := 2\<rparr>"]) (use p in simp_all)
qed

text \<open>What closing a file does to the inodes in memory.\<close>

lemma files_ok_dec:
  assumes o: "files_ok H h fs ps" and f: "f \<in> set fs" and d: "vn_dec_inode_ref h (inode f) = Inr h'"
  shows "if count_list (map inode fs @ ps) (inode f) = 1 then h' = heap_free h (inode f)
    else \<exists>n. heap_get h' (inode f) = Inr n \<and> unat (ref_cnt n) = count_list (map inode fs @ ps) (inode f) - 1"
proof -
  obtain xs ys where x: "fs = xs @ f # ys" using split_list [OF f] by blast
  let ?rs = "map inode (xs @ ys) @ ps"
  have c: "count_list (map inode fs @ ps) q = count_list (inode f # ?rs) q" for q by (simp add: x)
  then have r: "refs_ok H h (inode f # ?rs)" using o refs_ok_perm unfolding files_ok_def by blast
  have k: "count_list (map inode fs @ ps) (inode f) = Suc (count_list ?rs (inode f))" unfolding c by simp
  have "count_list ?rs (inode f) = 0 \<longleftrightarrow> inode f \<notin> set ?rs" by (rule count_list_0_iff)
  then show ?thesis using refs_ok_drop(3) [OF r d] unfolding k by (cases "inode f \<in> set ?rs") (simp_all del: set_append set_map map_append count_list_append)
qed

text \<open>
  C5: the calls refine the abstract metadata machine. On every store, also one whose calls
  fail, every call made in a state that calls, remounts and crashes can reach after formatting does to
  the metadata what a run of \<open>meta_step\<close> does: it skips a number, creates a name with its
  inode, removes a name, or stores the record of an existing inode or of the root inode. So
  no call, and no interleaving of calls on several open files and shared inodes, ever deletes
  an inode record, not even unlinking the last name.
\<close>

theorem calls_refine_metadata:
  assumes "rocksdb_crash E hist batch S families content synced recov" and "fs_reached E S hist families content recov x"
    and "fs_step E S hist families content x y"
  shows "meta_step\<^sup>*\<^sup>* (hist (db (fst x)), inode_seed (fst x)) (hist (db (fst y)), inode_seed (fst y)) \<and>
    (\<forall>ino. unat ino < 2 ^ 56 \<longrightarrow> hist (db (fst x)) meta_cf (inode_key ino) \<noteq> entry_delete \<longrightarrow>
       hist (db (fst y)) meta_cf (inode_key ino) \<noteq> entry_delete)"
proof -
  have "fs_inv hist x" using rocksdb_crash.reached_inv [OF assms(1,2)] by blast
  from rocksdb_disk.fs_step_sim [OF rocksdb_crash.axioms(1) [OF assms(1)] assms(3) this] show ?thesis
    using meta_steps_recs by fastforce
qed

theorem calls_refine_metadata_witness:
  "\<exists>ctx h rs f ctx' h'. wal_reached (ctx, h, [], rs) \<and> wal_step (ctx, h, [], rs) (ctx', h', [f], rs) \<and>
     meta_step\<^sup>*\<^sup>* (wal_hist (db ctx), 12) (wal_hist (db ctx'), inode_seed ctx')"
proof -
  obtain ctx h rs f ctx' h' where st: "wal_reached (ctx, h, [], rs)" "wal_step (ctx, h, [], rs) (ctx', h', [f], rs)" "inode_seed ctx = 12"
    by (rule sample_open_step) (rule that)
  from calls_refine_metadata [OF wal_crash.rocksdb_crash_axioms st(1,2)] st(3)
  have "meta_step\<^sup>*\<^sup>* (wal_hist (db ctx), 12) (wal_hist (db ctx'), inode_seed ctx')" by simp
  then show ?thesis using st(1,2) by blast
qed

text \<open>
  C6: every name owns its inode. On every store and in every state that calls, remounts and
  crashes can reach after formatting, a stored directory entry leads to a stored inode record of the
  same number; the number is a user number below the next one to be handed out, and no other
  entry of any directory leads to it.
\<close>

theorem names_own_inodes:
  assumes "rocksdb_crash E hist batch S families content synced recov" and "fs_reached E S hist families content recov (ctx, h, fs, ps)"
    and "c_name name" and "hist (db ctx) meta_cf (entry_key dir name) \<noteq> entry_delete"
  shows "\<exists>ino n. hist (db ctx) meta_cf (entry_key dir name) = entry_put (word_bytes ino) \<and>
    hist (db ctx) meta_cf (inode_key ino) = entry_put (inode_bytes n) \<and> inode_valid n \<and> i_no n = ino \<and>
    12 \<le> unat ino \<and> unat ino < unat (inode_seed ctx) \<and>
    (\<forall>dir' name'. c_name name' \<longrightarrow> hist (db ctx) meta_cf (entry_key dir' name') = entry_put (word_bytes ino) \<longrightarrow>
       dir' = dir \<and> name' = name)"
proof -
  let ?H = "hist (db ctx)"
  have i: "meta_inv ?H (inode_seed ctx)" using rocksdb_crash.reached_inv [OF assms(1,2)] by (simp add: fs_inv_def)
  obtain ino n where n: "?H meta_cf (entry_key dir name) = entry_put (word_bytes ino)" "12 \<le> unat ino"
    "?H meta_cf (inode_key ino) = entry_put (inode_bytes n)" "inode_valid n" "i_no n = ino" "unat ino < unat (inode_seed ctx)"
    by (rule stored_name [OF i assms(3,4)])
  have "dir' = dir \<and> name' = name" if "c_name name'" "?H meta_cf (entry_key dir' name') = entry_put (word_bytes ino)" for dir' name'
    using i that n(1) assms(3) unfolding meta_inv_def names_own_def by blast
  then show ?thesis using n by blast
qed

theorem names_own_inodes_witness:
  "\<exists>f ctx' h' rs n. wal_reached (ctx', h', [f], rs) \<and>
     wal_hist (db ctx') meta_cf (entry_key 2 ''a'') = entry_put (word_bytes (12 :: 64 word)) \<and>
     wal_hist (db ctx') meta_cf (inode_key 12) = entry_put (inode_bytes n) \<and> i_no n = 12"
proof -
  obtain f ctx' h' rs where o: "wal_reached (ctx', h', [f], rs)"
    "wal_hist (db ctx') meta_cf (entry_key 2 ''a'') = entry_put (word_bytes (12 :: 64 word))"
    by (rule sample_open_reached) (rule that)
  have c: "c_name ''a''" by simp
  have "wal_hist (db ctx') meta_cf (entry_key 2 ''a'') \<noteq> entry_delete" by (simp add: o(2))
  from names_own_inodes [OF wal_crash.rocksdb_crash_axioms o(1) c this] o(2) obtain n where
    "wal_hist (db ctx') meta_cf (inode_key 12) = entry_put (inode_bytes n)" "i_no n = 12" by auto
  then show ?thesis using o by blast
qed

text \<open>
  C7: open files never dangle. On every store and in every state that calls, remounts and crashes
  can reach after formatting, the in-memory inode of every open file is allocated, carries the
  file's number, and its counter is the number of open files and other holders that point to
  it, whether it is shared or not; every other inode that is held is allocated too. Reading and
  writing the file never uses a null or freed pointer. Closing it comes to an end and returns
  0; it frees exactly that inode when the file had the last reference, and leaves it with one
  reference less otherwise.
\<close>

theorem open_files_never_dangle:
  assumes "rocksdb_crash E hist batch S families content synced recov" and "fs_reached E S hist families content recov (ctx, h, fs, ps)"
    and "f \<in> set fs"
  shows "(\<exists>n. heap_get h (inode f) = Inr n \<and> i_no n = fi_no f \<and> unat (ref_cnt n) = count_list (map inode fs @ ps) (inode f)) \<and>
    (\<forall>p\<in>set ps. \<exists>n. heap_get h p = Inr n \<and> unat (ref_cnt n) = count_list (map inode fs @ ps) p) \<and>
    (\<forall>env b len off e. vn_write E env ctx h f b len off = Inl e \<longrightarrow> e \<in> {OutOfBounds, DivByZero}) \<and>
    (\<forall>env b len off e. vn_read E env ctx h f b len off = Inl e \<longrightarrow> e \<in> {OutOfBounds, DivByZero}) \<and>
    (\<exists>ctx' h'. vn_close_file E ctx h f = Inr (0, ctx', h') \<and>
      (if count_list (map inode fs @ ps) (inode f) = 1 then h' = heap_free h (inode f)
       else \<exists>n. heap_get h' (inode f) = Inr n \<and> unat (ref_cnt n) = count_list (map inode fs @ ps) (inode f) - 1))"
proof -
  have o: "files_ok (hist (db ctx)) h fs ps" using rocksdb_crash.reached_inv [OF assms(1,2)] by (simp add: fs_inv_def)
  note l = files_ok_live [OF o assms(3)]
  have r: "refs_ok (hist (db ctx)) h (map inode fs @ ps)" using o by (simp add: files_ok_def)
  have c: "\<exists>n. heap_get h (inode f) = Inr n \<and> i_no n = fi_no f \<and> unat (ref_cnt n) = count_list (map inode fs @ ps) (inode f)"
    using refs_ok_get [OF r, of "inode f"] l assms(3) by (auto simp: file_live_def)
  have "rocksdb E hist batch" using rocksdb_disk.axioms(1) [OF rocksdb_crash.axioms(1) [OF assms(1)]] .
  from rocksdb.close_any [OF this l] obtain ctx' h' where x: "vn_close_file E ctx h f = Inr (0, ctx', h')"
    "vn_dec_inode_ref h (inode f) = Inr h'" by blast
  show ?thesis
  proof (intro conjI c)
    show "\<forall>p\<in>set ps. \<exists>n. heap_get h p = Inr n \<and> unat (ref_cnt n) = count_list (map inode fs @ ps) p"
      using refs_ok_get [OF r] by fastforce
    show "\<exists>ctx' h'. vn_close_file E ctx h f = Inr (0, ctx', h') \<and>
      (if count_list (map inode fs @ ps) (inode f) = 1 then h' = heap_free h (inode f)
       else \<exists>n. heap_get h' (inode f) = Inr n \<and> unat (ref_cnt n) = count_list (map inode fs @ ps) (inode f) - 1)"
      by (rule exI [of _ ctx'], rule exI [of _ h'], rule conjI [OF x(1) files_ok_dec [OF o assms(3) x(2)]])
  qed (use live_no_dangling [OF l] in blast)+
qed

theorem open_files_never_dangle_witness:
  "\<exists>f g ctx h rs ctx' h' n. wal_reached (ctx, h, [g, f], inode g # rs) \<and> fi_no g = 12 \<and>
     vn_close_file (wal_ext no_faults) ctx h g = Inr (0, ctx', h') \<and> heap_get h' (inode g) = Inr n \<and> ref_cnt n = 1"
proof -
  obtain f g ctx h rs m where o: "wal_reached (ctx, h, [g, f], inode g # rs)" "fi_no g = 12" "heap_get h (inode g) = Inr m"
    "ref_cnt m = 2" by (rule sample_share_reached)
  let ?c = "count_list (map inode [g, f] @ inode g # rs) (inode g)"
  have g: "g \<in> set [g, f]" by simp
  note d = open_files_never_dangle [OF wal_crash.rocksdb_crash_axioms o(1) g]
  then have c: "?c = 2" using o(3,4) by auto
  from d obtain ctx' h' n where x: "vn_close_file (wal_ext no_faults) ctx h g = Inr (0, ctx', h')" "heap_get h' (inode g) = Inr n"
    "unat (ref_cnt n) = 1" unfolding c by auto
  have "ref_cnt n = 1" using x(3) by (simp add: word_unat_eq_iff)
  then show ?thesis using o(1,2) x(1,2) by blast
qed

text \<open>
  C25: what is stored under an inode key is an inode. On every store and in every state that
  calls, remounts and crashes can reach after formatting, a value that a lookup delivers for the key
  of an inode number below \<open>2 ^ 56\<close> has the size of an inode and decodes, without reading
  outside of it, to a new in-memory inode of that number with one reference.
\<close>

theorem inode_records_typed:
  assumes "rocksdb_crash E hist batch S families content synced recov" and "fs_reached E S hist families content recov (ctx, h, fs, ps)"
    and "unat ino < 2 ^ 56" and "Get E (db ctx) meta_cf (inode_key ino) = (Ok, v)" and "inode_mem env (next_addr h)"
  shows "length v = VIVEFS_INODE_SIZE \<and>
    (\<exists>n. deserialize_inode env h v = Inr (next_addr h, snd (heap_alloc h n)) \<and> i_no n = ino \<and> ref_cnt n = 1)"
proof -
  let ?H = "hist (db ctx)"
  have r: "rocksdb E hist batch" using rocksdb_disk.axioms(1) [OF rocksdb_crash.axioms(1) [OF assms(1)]] .
  obtain s0 where "inode_recs ?H s0"
    using rocksdb_crash.reached_inv [OF assms(1,2)] unfolding fs_inv_def meta_inv_def by auto
  moreover have er: "entry_reads (?H meta_cf (inode_key ino)) v" by (rule rocksdb.get_ok [OF r assms(4)])
  moreover from this have "?H meta_cf (inode_key ino) \<noteq> entry_delete" by auto
  ultimately obtain n where n: "v = inode_bytes n" "inode_valid n" "i_no n = ino"
    using assms(3) unfolding inode_recs_def by fastforce
  show ?thesis
    using n deserialize_inode_bytes [OF n(2) assms(5)] by (intro conjI exI [of _ "n\<lparr>ref_cnt := 1\<rparr>"]) simp_all
qed

theorem inode_records_typed_witness:
  "\<exists>f ctx' h' rs v n. wal_reached (ctx', h', [f], rs) \<and> Get (wal_ext no_faults) (db ctx') meta_cf (inode_key 12) = (Ok, v) \<and>
     deserialize_inode sample_env h' v = Inr (next_addr h', snd (heap_alloc h' n)) \<and> i_no n = 12"
proof -
  obtain f ctx' h' rs n where o: "wal_reached (ctx', h', [f], rs)"
    "wal_hist (db ctx') meta_cf (inode_key 12) = entry_put (inode_bytes n)" by (rule sample_open_reached) (rule that)
  have u: "unat (12 :: 64 word) < 2 ^ 56" and m: "inode_mem sample_env (next_addr h')" by simp_all
  note g = wal_reliable.get_put [OF o(2)]
  from inode_records_typed [OF wal_crash.rocksdb_crash_axioms o(1) u g m] obtain n' where
    "deserialize_inode sample_env h' (inode_bytes n) = Inr (next_addr h', snd (heap_alloc h' n'))" "i_no n' = 12" by blast
  then show ?thesis using o(1) g by blast
qed

text \<open>
  C8: a file that is not open keeps its bytes. On every store and from every state that
  calls, remounts and crashes can reach after formatting, no sequence of calls and remounts
  in which the file \<open>ino\<close> is never among the open files changes a byte of it: neither
  creating, opening, truncating, writing, synchronising and closing other files, in any
  order and whether or not the calls fail, nor removing its name.
\<close>

theorem closed_files_keep_data:
  assumes "rocksdb_crash E hist batch S families content synced recov" and "fs_reached E S hist families content recov x"
    and "(\<lambda>a b. fs_step E S hist families content a b \<and> ino \<notin> fi_no ` (set (fst (snd (snd a))) \<union> set (fst (snd (snd b)))))\<^sup>*\<^sup>* x y"
  shows "fbyte (hist (db (fst y))) ino p = fbyte (hist (db (fst x))) ino p"
proof -
  note D = rocksdb_crash.axioms(1) [OF assms(1)]
  have "fs_inv hist x" using rocksdb_crash.reached_inv [OF assms(1,2)] by blast
  with assms(3) have "fs_inv hist y \<and> same_data ino (hist (db (fst x))) (hist (db (fst y)))"
  proof (induction rule: rtranclp_induct)
    case (step y z)
    then show ?case
      using rocksdb_disk.fs_step_sim [OF D, of y z] rocksdb_crash.fs_step_data [OF assms(1), of y z ino] same_data_trans by blast
  qed (simp add: same_data_def)
  then show ?thesis using same_data_fbyte by blast
qed

theorem closed_files_keep_data_witness:
  "\<exists>ctx h rs f ctx' h'. wal_reached (ctx, h, [], rs) \<and> wal_step (ctx, h, [], rs) (ctx', h', [f], rs) \<and> fi_no f = 12 \<and>
     fbyte (wal_hist (db ctx')) 13 0 = fbyte (wal_hist (db ctx)) 13 0"
proof -
  obtain ctx h rs f ctx' h' where st: "wal_reached (ctx, h, [], rs)" "wal_step (ctx, h, [], rs) (ctx', h', [f], rs)" "fi_no f = 12"
    by (rule sample_open_step) (rule that)
  have "(13 :: 64 word) \<noteq> 12" by simp
  then have "(\<lambda>a b. wal_step a b \<and> 13 \<notin> fi_no ` (set (fst (snd (snd a))) \<union> set (fst (snd (snd b)))))\<^sup>*\<^sup>* (ctx, h, [], rs) (ctx', h', [f], rs)"
    using st(2,3) by (intro r_into_rtranclp) simp
  from closed_files_keep_data [OF wal_crash.rocksdb_crash_axioms st(1) this, of 0]
  have "fbyte (wal_hist (db ctx')) 13 0 = fbyte (wal_hist (db ctx)) 13 0" by simp
  then show ?thesis using st by blast
qed

text \<open>
  C16: every stored name can be opened. On a store and a disk that report no failure, in
  every state that calls, remounts and crashes can reach after formatting, a stored name is
  found by a lookup and opens, as long as memory for an inode is to be had; the file has the
  number that the lookup returns, and its inode in memory is the stored record.
\<close>

theorem stored_names_open:
  assumes "rocksdb_crash_reliable E hist batch S families content synced recov"
    and "fs_reached E S hist families content recov (ctx, h, fs, ps)"
    and "c_name name" and "hist (db ctx) meta_cf (entry_key dir name) \<noteq> entry_delete"
    and "inode_mem env (next_addr h)" and "\<not> has_flag oflags O_TRUNC"
  shows "\<exists>n f h'. vn_lookup_inode_no E env ctx h dir name False = Inr (sint (fi_no f), 0, h) \<and>
    vn_open_file E env ctx h dir name oflags mode = Inr (Some f, ctx, h') \<and>
    hist (db ctx) meta_cf (inode_key (fi_no f)) = entry_put (inode_bytes n) \<and>
    heap_get h' (inode f) = Inr (n\<lparr>ref_cnt := 1\<rparr>)"
proof -
  let ?H = "hist (db ctx)"
  have C: "rocksdb_crash E hist batch S families content synced recov" using assms(1) by (rule rocksdb_crash_reliable.axioms(1))
  have R: "rocksdb_reliable E hist batch"
    using rocksdb_disk_reliable.axioms(2) [OF rocksdb_crash_reliable.axioms(2) [OF assms(1)]] .
  have "fs_inv hist (ctx, h, fs, ps)" using rocksdb_crash.reached_inv [OF C assms(2)] by blast
  note i = fs_invD(1) [OF this] and h = fs_invD(3) [OF this]
  have p: "next_addr h \<noteq> 0" using h by (simp add: heap_fresh_def)
  obtain ino n where 1: "?H meta_cf (entry_key dir name) = entry_put (word_bytes ino)" "12 \<le> unat ino"
    and n: "?H meta_cf (inode_key ino) = entry_put (inode_bytes n)" "inode_valid n" "i_no n = ino" "unat ino < unat (inode_seed ctx)"
    by (rule stored_name [OF i assms(3,4)])
  from rocksdb_reliable.open_stored [OF R 1(1) n(1,2) assms(5) h assms(6)] obtain f h' where f:
    "vn_open_file E env ctx h dir name oflags mode = Inr (Some f, ctx, h')" "fi_no f = i_no n"
    "heap_get h' (inode f) = Inr (n\<lparr>ref_cnt := 1\<rparr>)" by blast
  have "vn_lookup_inode_no E env ctx h dir name False = Inr (sint (fi_no f), 0, h)"
    using rocksdb_reliable.lookup_present(2) [OF R 1(1) [unfolded entry_key_def] n(1,2) assms(5) p] f(2) n(3) by simp
  moreover have "hist (db ctx) meta_cf (inode_key (fi_no f)) = entry_put (inode_bytes n)" using n(1,3) f(2) by simp
  ultimately show ?thesis using f(1,3) by blast
qed

theorem stored_names_open_witness:
  "\<exists>f ctx' h' rs g h''. wal_reached (ctx', h', [f], rs) \<and> fi_no f = 12 \<and>
     vn_open_file (wal_ext no_faults) sample_env ctx' h' 2 ''a'' 0 0 = Inr (Some g, ctx', h'')"
proof -
  obtain f ctx' h' rs where o: "wal_reached (ctx', h', [f], rs)" "fi_no f = 12"
    "wal_hist (db ctx') meta_cf (entry_key 2 ''a'') = entry_put (word_bytes (12 :: 64 word))"
    by (rule sample_open_reached) (rule that)
  have c: "c_name ''a''" "inode_mem sample_env (next_addr h')" "\<not> has_flag 0 O_TRUNC"
    "wal_hist (db ctx') meta_cf (entry_key 2 ''a'') \<noteq> entry_delete"
    by (simp_all add: o(3) has_flag_def)
  from stored_names_open [OF wal_crash_reliable.rocksdb_crash_reliable_axioms o(1) c(1,4,2,3), of 0]
  obtain g h'' where "vn_open_file (wal_ext no_faults) sample_env ctx' h' 2 ''a'' 0 0 = Inr (Some g, ctx', h'')" by blast
  then show ?thesis using o(1,2) by blast
qed

end

