(* ===== verification/PfAof.thy ===== *)
theory PfAof
  imports Store
begin

text \<open>
  The RocksDB file system on PureFlash append-only files (\<open>src/src/vn_pfaof.cpp\<close>): sequential,
  random-access and writable files and the operations on names. The PureFlash client is a
  parameter, the record \<open>pf_api\<close>; the locale \<open>pureflash\<close> states what it promises. The
  lemmas follow the bytes of a file from \<open>Append\<close> to \<open>Read\<close> and the counters of users.
\<close>

section \<open>The PureFlash client\<close>

unbundle bit_operations_syntax

text \<open>
  An \<open>aof\<close> is the address of a \<open>PfAof\<close> object, 0 the null pointer. A file is opened with the
  flags of \<open>open\<close>: the code passes \<open>O_CREAT | O_RDWR\<close> or \<open>O_RDONLY\<close>, never \<open>O_TRUNC\<close>.
\<close>

record 'w pf_api =
  pf_open_aof :: "string \<Rightarrow> 32 word \<Rightarrow> 'w \<Rightarrow> nat \<times> 'w"
  pf_append :: "nat \<Rightarrow> slice \<Rightarrow> 'w \<Rightarrow> int \<times> 'w"
  pf_sync :: "nat \<Rightarrow> 'w \<Rightarrow> 'w"
  pf_file_length :: "nat \<Rightarrow> 'w \<Rightarrow> 64 word"
  pf_dec_ref :: "nat \<Rightarrow> 'w \<Rightarrow> 'w"
  cache_init :: "nat \<Rightarrow> 'w \<Rightarrow> int"
  cache_pread :: "nat \<Rightarrow> nat \<Rightarrow> int \<Rightarrow> 'w \<Rightarrow> int \<times> slice"
  pf_aof_access :: "string \<Rightarrow> 'w \<Rightarrow> int"
  pf_ls_aof_children :: "string \<Rightarrow> 'w \<Rightarrow> int \<times> string list"
  pf_delete_aof :: "string \<Rightarrow> 'w \<Rightarrow> int \<times> 'w"
  pf_create_tenant :: "string \<Rightarrow> 'w \<Rightarrow> int \<times> 'w"
  pf_rename_aof :: "string \<Rightarrow> string \<Rightarrow> 'w \<Rightarrow> int \<times> 'w"

definition aof_create_rdwr :: "32 word" where "aof_create_rdwr = 0x40 OR 0x2"
definition aof_rdonly :: "32 word" where "aof_rdonly = 0"

definition flag_creates :: "32 word \<Rightarrow> bool" where "flag_creates fl \<longleftrightarrow> fl AND 0x40 \<noteq> 0"
definition flag_truncates :: "32 word \<Rightarrow> bool" where "flag_truncates fl \<longleftrightarrow> fl AND 0x200 \<noteq> 0"

lemma aof_flags [simp]: "flag_creates aof_create_rdwr" "\<not> flag_truncates aof_create_rdwr" "\<not> flag_creates aof_rdonly" "\<not> flag_truncates aof_rdonly"
  by (simp_all add: flag_creates_def flag_truncates_def aof_create_rdwr_def aof_rdonly_def)

text \<open>The cluster, and the counters of users that the code keeps in the \<open>PfAof\<close> objects.\<close>

record 'w aof_state =
  cluster :: 'w
  reader_cnt :: "nat \<Rightarrow> int"
  writer_cnt :: "nat \<Rightarrow> int"

datatype iostatus = IOOk | IOPathNotFound | IONotFound | IOError | IONotSupported

definition add_reader :: "nat \<Rightarrow> int \<Rightarrow> 'w aof_state \<Rightarrow> 'w aof_state" where
  "add_reader a k st = st\<lparr>reader_cnt := (reader_cnt st)(a := reader_cnt st a + k)\<rparr>"

definition add_writer :: "nat \<Rightarrow> int \<Rightarrow> 'w aof_state \<Rightarrow> 'w aof_state" where
  "add_writer a k st = st\<lparr>writer_cnt := (writer_cnt st)(a := writer_cnt st a + k)\<rparr>"

definition dec_ref :: "'w pf_api \<Rightarrow> nat \<Rightarrow> 'w aof_state \<Rightarrow> 'w aof_state" where
  "dec_ref A a st = st\<lparr>cluster := pf_dec_ref A a (cluster st)\<rparr>"

section \<open>Sequential files\<close>

text \<open>
  A constructor that cannot set up its read cache throws, and nothing catches it. \<open>Read\<close>
  adds the result of \<open>pread\<close> to the offset before it tests for an error; the slice is
  \<open>None\<close> when \<open>*result\<close> is not set.
\<close>

record PfAofSeqFile =
  s_offset :: int
  s_aof :: nat
  s_name :: string

definition new_PfAofSeqFile :: "'w pf_api \<Rightarrow> nat \<Rightarrow> string \<Rightarrow> 'w aof_state \<Rightarrow> PfAofSeqFile result" where
  "new_PfAofSeqFile A a fname st =
     (if cache_init A a (cluster st) \<noteq> 0 then Inl Fatal else Inr \<lparr>s_offset = 0, s_aof = a, s_name = fname\<rparr>)"

definition delete_PfAofSeqFile :: "'w pf_api \<Rightarrow> PfAofSeqFile \<Rightarrow> 'w aof_state \<Rightarrow> 'w aof_state" where
  "delete_PfAofSeqFile A f st = dec_ref A (s_aof f) (add_reader (s_aof f) (- 1) st)"

definition seq_Read :: "'w pf_api \<Rightarrow> nat \<Rightarrow> PfAofSeqFile \<Rightarrow> 'w aof_state \<Rightarrow> iostatus \<times> slice option \<times> PfAofSeqFile" where
  "seq_Read A n f st =
     (case cache_pread A (s_aof f) n (s_offset f) (cluster st) of (bytes_read, scratch) \<Rightarrow>
      let f = f\<lparr>s_offset := s64 (s_offset f + bytes_read)\<rparr> in
      if bytes_read < 0 then (IOError, None, f) else (IOOk, Some (take (nat bytes_read) scratch), f))"

definition seq_PositionedRead ::
  "'w pf_api \<Rightarrow> 64 word \<Rightarrow> nat \<Rightarrow> PfAofSeqFile \<Rightarrow> 'w aof_state \<Rightarrow> iostatus \<times> slice option" where
  "seq_PositionedRead A pos_offset n f st =
     (case cache_pread A (s_aof f) n (sint pos_offset) (cluster st) of (bytes_read, scratch) \<Rightarrow>
      if bytes_read < 0 then (IOError, None) else (IOOk, Some (take (nat bytes_read) scratch)))"

definition seq_Skip :: "64 word \<Rightarrow> PfAofSeqFile \<Rightarrow> iostatus \<times> PfAofSeqFile" where
  "seq_Skip n f = (IOOk, f\<lparr>s_offset := s64 (s_offset f + uint n)\<rparr>)"

section \<open>Random-access files\<close>

record PfAofRandomFile =
  r_aof :: nat
  r_name :: string

definition new_PfAofRandomFile :: "'w pf_api \<Rightarrow> nat \<Rightarrow> string \<Rightarrow> 'w aof_state \<Rightarrow> PfAofRandomFile result" where
  "new_PfAofRandomFile A a fname st =
     (if cache_init A a (cluster st) \<noteq> 0 then Inl Fatal else Inr \<lparr>r_aof = a, r_name = fname\<rparr>)"

definition delete_PfAofRandomFile :: "'w pf_api \<Rightarrow> PfAofRandomFile \<Rightarrow> 'w aof_state \<Rightarrow> 'w aof_state" where
  "delete_PfAofRandomFile A f st = dec_ref A (r_aof f) (add_reader (r_aof f) (- 1) st)"

definition random_Read ::
  "'w pf_api \<Rightarrow> 64 word \<Rightarrow> nat \<Rightarrow> PfAofRandomFile \<Rightarrow> 'w aof_state \<Rightarrow> iostatus \<times> slice option" where
  "random_Read A offset_p n f st =
     (case cache_pread A (r_aof f) n (sint offset_p) (cluster st) of (bytes_read, scratch) \<Rightarrow>
      if bytes_read < 0 then (IOError, None) else (IOOk, Some (take (nat bytes_read) scratch)))"

section \<open>Writable files\<close>

text \<open>\<open>Close\<close> sets \<open>aof\<close> to null; every later operation calls through it.\<close>

record PfAofWriteableFile =
  w_aof :: nat
  w_name :: string

definition with_aof :: "PfAofWriteableFile \<Rightarrow> (nat \<Rightarrow> 'a) \<Rightarrow> 'a result" where
  "with_aof f k = (if w_aof f = 0 then Inl NullDeref else Inr (k (w_aof f)))"

definition delete_PfAofWriteableFile :: "'w pf_api \<Rightarrow> PfAofWriteableFile \<Rightarrow> 'w aof_state \<Rightarrow> 'w aof_state" where
  "delete_PfAofWriteableFile A f st =
     (if w_aof f \<noteq> 0 then dec_ref A (w_aof f) (add_writer (w_aof f) (- 1) st) else st)"

definition w_Append :: "'w pf_api \<Rightarrow> slice \<Rightarrow> PfAofWriteableFile \<Rightarrow> 'w aof_state \<Rightarrow> (iostatus \<times> 'w aof_state) result" where
  "w_Append A data f st =
     with_aof f (\<lambda>a. case pf_append A a data (cluster st) of (rc, w) \<Rightarrow>
       (if rc \<noteq> int (length data) then IOError else IOOk, st\<lparr>cluster := w\<rparr>))"

definition w_Close ::
  "'w pf_api \<Rightarrow> PfAofWriteableFile \<Rightarrow> 'w aof_state \<Rightarrow> (iostatus \<times> PfAofWriteableFile \<times> 'w aof_state) result" where
  "w_Close A f st = with_aof f (\<lambda>a. (IOOk, f\<lparr>w_aof := 0\<rparr>, dec_ref A a (add_writer a (- 1) st)))"

definition w_Flush :: "'w pf_api \<Rightarrow> PfAofWriteableFile \<Rightarrow> 'w aof_state \<Rightarrow> (iostatus \<times> 'w aof_state) result" where
  "w_Flush A f st = with_aof f (\<lambda>a. (IOOk, st\<lparr>cluster := pf_sync A a (cluster st)\<rparr>))"

definition w_Sync :: "'w pf_api \<Rightarrow> PfAofWriteableFile \<Rightarrow> 'w aof_state \<Rightarrow> (iostatus \<times> 'w aof_state) result" where
  "w_Sync A f st = with_aof f (\<lambda>a. (IOOk, st\<lparr>cluster := pf_sync A a (cluster st)\<rparr>))"

definition w_GetFileSize :: "'w pf_api \<Rightarrow> PfAofWriteableFile \<Rightarrow> 'w aof_state \<Rightarrow> 64 word result" where
  "w_GetFileSize A f st = with_aof f (\<lambda>a. pf_file_length A a (cluster st))"

section \<open>The file system\<close>

text \<open>All three ways of opening a file create it when it is missing.\<close>

definition NewSequentialFile ::
  "'w pf_api \<Rightarrow> string \<Rightarrow> 'w aof_state \<Rightarrow> (iostatus \<times> PfAofSeqFile option \<times> 'w aof_state) result" where
  "NewSequentialFile A fname st =
     (case pf_open_aof A fname aof_create_rdwr (cluster st) of (a, w) \<Rightarrow>
      let st = st\<lparr>cluster := w\<rparr> in
      if a = 0 then Inr (IOPathNotFound, None, st)
      else let st = add_reader a 1 st in
        bindR (new_PfAofSeqFile A a fname st) (\<lambda>f. Inr (IOOk, Some f, st)))"

definition NewRandomAccessFile ::
  "'w pf_api \<Rightarrow> string \<Rightarrow> 'w aof_state \<Rightarrow> (iostatus \<times> PfAofRandomFile option \<times> 'w aof_state) result" where
  "NewRandomAccessFile A fname st =
     (case pf_open_aof A fname aof_create_rdwr (cluster st) of (a, w) \<Rightarrow>
      let st = st\<lparr>cluster := w\<rparr> in
      if a = 0 then Inr (IOPathNotFound, None, st)
      else let st = add_reader a 1 st in
        bindR (new_PfAofRandomFile A a fname st) (\<lambda>f. Inr (IOOk, Some f, st)))"

definition NewWritableFile ::
  "'w pf_api \<Rightarrow> string \<Rightarrow> 'w aof_state \<Rightarrow> iostatus \<times> PfAofWriteableFile option \<times> 'w aof_state" where
  "NewWritableFile A fname st =
     (case pf_open_aof A fname aof_create_rdwr (cluster st) of (a, w) \<Rightarrow>
      let st = st\<lparr>cluster := w\<rparr> in
      if a = 0 then (IOPathNotFound, None, st)
      else (IOOk, Some \<lparr>w_aof = a, w_name = fname\<rparr>, add_writer a 1 st))"

text \<open>\<open>std::string::back\<close> of an empty name reads outside the string.\<close>

definition str_back :: "string \<Rightarrow> char result" where
  "str_back s = (if s = [] then Inl OutOfBounds else Inr (last s))"

definition CreateDirIfMissing :: "'w pf_api \<Rightarrow> string \<Rightarrow> 'w aof_state \<Rightarrow> (iostatus \<times> 'w aof_state) result" where
  "CreateDirIfMissing A dname st =
     bindR (str_back dname) (\<lambda>c.
       case pf_create_tenant A (if c = CHR ''/'' then take (length dname - 1) dname else dname) (cluster st) of (rc, w) \<Rightarrow>
       Inr (if rc = 0 then IOOk else IOError, st\<lparr>cluster := w\<rparr>))"

record PfDir =
  pd_name :: string

definition NewDirectory :: "'w pf_api \<Rightarrow> string \<Rightarrow> 'w aof_state \<Rightarrow> (iostatus \<times> PfDir option \<times> 'w aof_state) result" where
  "NewDirectory A dname st =
     bindR (CreateDirIfMissing A dname st) (\<lambda>(s, st). Inr (s, if s = IOOk then Some \<lparr>pd_name = dname\<rparr> else None, st))"

definition FileExists :: "'w pf_api \<Rightarrow> string \<Rightarrow> 'w aof_state \<Rightarrow> iostatus" where
  "FileExists A fname st = (if pf_aof_access A fname (cluster st) = 0 then IOOk else IONotFound)"

text \<open>\<open>substr(pos)\<close> throws when \<open>pos\<close> is past the end.\<close>

definition substr :: "nat \<Rightarrow> string \<Rightarrow> string result" where
  "substr pos s = (if pos \<le> length s then Inr (drop pos s) else Inl Fatal)"

fun strip_children :: "nat \<Rightarrow> string list \<Rightarrow> string list result" where
  "strip_children pos [] = Inr []"
| "strip_children pos (i # xs) =
     bindR (substr pos i) (\<lambda>i. bindR (strip_children pos xs) (\<lambda>xs. Inr (i # xs)))"

definition GetChildren :: "'w pf_api \<Rightarrow> string \<Rightarrow> 'w aof_state \<Rightarrow> (iostatus \<times> string list) result" where
  "GetChildren A dir_name st =
     bindR (str_back dir_name) (\<lambda>c.
       let t_name = (if c = CHR ''/'' then take (length dir_name - 1) dir_name else dir_name) in
       case pf_ls_aof_children A t_name (cluster st) of (rc, children) \<Rightarrow>
       if rc = 0 then bindR (strip_children (length dir_name + 1) children) (\<lambda>xs. Inr (IOOk, xs))
       else Inr (if rc = - 2 then IOPathNotFound else IOError, children))"

definition fs_DeleteFile :: "'w pf_api \<Rightarrow> string \<Rightarrow> 'w aof_state \<Rightarrow> iostatus \<times> 'w aof_state" where
  "fs_DeleteFile A fname st =
     (case pf_delete_aof A fname (cluster st) of (rc, w) \<Rightarrow> (if rc = 0 then IOOk else IOError, st\<lparr>cluster := w\<rparr>))"

definition fs_GetFileSize :: "'w pf_api \<Rightarrow> string \<Rightarrow> 'w aof_state \<Rightarrow> iostatus \<times> (64 word) option \<times> 'w aof_state" where
  "fs_GetFileSize A fname st =
     (case pf_open_aof A fname aof_rdonly (cluster st) of (a, w) \<Rightarrow>
      let st = st\<lparr>cluster := w\<rparr> in
      if a = 0 then (IONotFound, None, st)
      else (IOOk, Some (pf_file_length A a w), dec_ref A a st))"

definition RenameFile :: "'w pf_api \<Rightarrow> string \<Rightarrow> string \<Rightarrow> 'w aof_state \<Rightarrow> iostatus \<times> 'w aof_state" where
  "RenameFile A source target st =
     (case pf_rename_aof A source target (cluster st) of (rc, w) \<Rightarrow> (if rc = 0 then IOOk else IOError, st\<lparr>cluster := w\<rparr>))"

text \<open>\<open>LockFile\<close> and \<open>UnlockFile\<close> always succeed; a lock is an object without content.\<close>

definition LockFile :: "string \<Rightarrow> 'w aof_state \<Rightarrow> iostatus \<times> 'w aof_state" where
  "LockFile fname st = (IOOk, st)"

definition UnlockFile :: "'w aof_state \<Rightarrow> iostatus \<times> 'w aof_state" where
  "UnlockFile st = (IOOk, st)"

definition GetAbsolutePath :: "string \<Rightarrow> iostatus \<times> string" where
  "GetAbsolutePath db_path = (IOOk, db_path)"

text \<open>What the file system does not support, and the synchronisation of a directory, which does nothing.\<close>

definition fs_Truncate :: "string \<Rightarrow> nat \<Rightarrow> iostatus" where "fs_Truncate fname sz = IONotSupported"
definition CreateDir :: "string \<Rightarrow> iostatus" where "CreateDir dname = IONotSupported"
definition DeleteDir :: "string \<Rightarrow> iostatus" where "DeleteDir dname = IONotSupported"
definition GetFileModificationTime :: "string \<Rightarrow> iostatus" where "GetFileModificationTime fname = IONotSupported"
definition GetTestDirectory :: iostatus where "GetTestDirectory = IONotSupported"
definition IsDirectory :: "string \<Rightarrow> iostatus" where "IsDirectory path = IONotSupported"

definition PfDir_Fsync :: "PfDir \<Rightarrow> iostatus" where "PfDir_Fsync d = IOOk"

section \<open>What PureFlash promises\<close>

text \<open>
  A cluster has files with a content, and every open \<open>PfAof\<close> belongs to a file. Appending
  extends the content by what was accepted; a read delivers what is stored, cut at the end.
\<close>

locale pureflash =
  fixes A :: "'w pf_api"
    and content :: "'w \<Rightarrow> string \<Rightarrow> slice option"
    and path_of :: "'w \<Rightarrow> nat \<Rightarrow> string option"
  assumes open_file: "pf_open_aof A f fl w = (a, w') \<Longrightarrow> a \<noteq> 0 \<Longrightarrow> path_of w' a = Some f \<and> content w' f \<noteq> None \<and>
      content w' = (if flag_truncates fl \<or> flag_creates fl \<and> content w f = None then (content w)(f := Some []) else content w)"
    and open_null: "pf_open_aof A f fl w = (0, w') \<Longrightarrow> content w' = content w"
    and append_bytes: "pf_append A a d w = (rc, w') \<Longrightarrow> path_of w a = Some f \<Longrightarrow> content w f = Some s \<Longrightarrow>
      path_of w' a = Some f \<and> (\<exists>k \<le> length d. content w' = (content w)(f := Some (s @ take k d)) \<and>
        (rc = int (length d) \<longrightarrow> k = length d))"
    and dec_ref_content: "content (pf_dec_ref A a w) = content w"
    and pread_bytes: "cache_pread A a n off w = (rc, b) \<Longrightarrow> path_of w a = Some f \<Longrightarrow> content w f = Some s \<Longrightarrow>
      0 \<le> off \<Longrightarrow> 0 \<le> rc \<Longrightarrow> rc = int (min n (length s - nat off)) \<and> take (nat rc) b = take n (drop (nat off) s)"

locale pureflash_reliable = pureflash +
  assumes open_succeeds: "fst (pf_open_aof A f aof_create_rdwr w) \<noteq> 0"
    and append_succeeds: "path_of w a = Some f \<Longrightarrow> fst (pf_append A a d w) = int (length d)"
    and cache_succeeds: "cache_init A a w = 0"
    and pread_succeeds: "path_of w a = Some f \<Longrightarrow> 0 \<le> off \<Longrightarrow> 0 \<le> fst (cache_pread A a n off w)"

section \<open>Writing and reading whole files\<close>

text \<open>A sequence of appends, and a sequence of reads of the given sizes, up to the first error.\<close>

fun append_all :: "'w pf_api \<Rightarrow> slice list \<Rightarrow> PfAofWriteableFile \<Rightarrow> 'w aof_state \<Rightarrow> (iostatus \<times> 'w aof_state) result" where
  "append_all A [] f st = Inr (IOOk, st)"
| "append_all A (d # ds) f st =
     bindR (w_Append A d f st) (\<lambda>(s, st). if s \<noteq> IOOk then Inr (s, st) else append_all A ds f st)"

fun read_all :: "'w pf_api \<Rightarrow> nat list \<Rightarrow> PfAofSeqFile \<Rightarrow> 'w aof_state \<Rightarrow> iostatus \<times> slice \<times> PfAofSeqFile" where
  "read_all A [] f st = (IOOk, [], f)"
| "read_all A (n # ns) f st =
     (case seq_Read A n f st of (s, r, f) \<Rightarrow>
      if s \<noteq> IOOk then (s, [], f)
      else case read_all A ns f st of (s, bs, f) \<Rightarrow> (s, (case r of None \<Rightarrow> [] | Some b \<Rightarrow> b) @ bs, f))"

lemma counter_simps [simp]:
  "cluster (add_reader a k st) = cluster st" "cluster (add_writer a k st) = cluster st"
  "reader_cnt (dec_ref A a st) = reader_cnt st" "writer_cnt (dec_ref A a st) = writer_cnt st"
  "reader_cnt (add_writer a k st) = reader_cnt st" "writer_cnt (add_reader a k st) = writer_cnt st"
  "reader_cnt (add_reader a k st) = (reader_cnt st)(a := reader_cnt st a + k)"
  "writer_cnt (add_writer a k st) = (writer_cnt st)(a := writer_cnt st a + k)"
  "cluster (dec_ref A a st) = pf_dec_ref A a (cluster st)"
  by (simp_all add: add_reader_def add_writer_def dec_ref_def)

context pureflash_reliable
begin

lemma open_run:
  obtains a w' where "pf_open_aof A f aof_create_rdwr w = (a, w')" and "a \<noteq> 0" and "path_of w' a = Some f"
    and "content w' = (content w)(f := Some (case content w f of None \<Rightarrow> [] | Some s \<Rightarrow> s))"
proof -
  obtain a w' where o: "pf_open_aof A f aof_create_rdwr w = (a, w')" by force
  have "a \<noteq> 0" using open_succeeds [of f w] o by simp
  with open_file [OF o] show ?thesis
    by (intro that [OF o]) (auto simp: fun_eq_iff split: option.splits if_splits)
qed

lemma append_all_run:
  assumes "w_aof f = a" and "a \<noteq> 0" and "path_of (cluster st) a = Some fn" and "content (cluster st) fn = Some s"
  shows "\<exists>w. append_all A ds f st = Inr (IOOk, st\<lparr>cluster := w\<rparr>) \<and> path_of w a = Some fn \<and>
    content w = (content (cluster st))(fn := Some (s @ concat ds))"
  using assms(3,4)
proof (induction ds arbitrary: st s)
  case Nil
  then show ?case by (intro exI [of _ "cluster st"]) auto
next
  case (Cons d ds)
  obtain rc w1 where 1: "pf_append A a d (cluster st) = (rc, w1)" by force
  have rc: "rc = int (length d)" using append_succeeds [OF Cons.prems(1), of d] 1 by simp
  from append_bytes [OF 1 Cons.prems] rc
  have 2: "path_of w1 a = Some fn" "content w1 = (content (cluster st))(fn := Some (s @ d))" by auto
  have "path_of (cluster (st\<lparr>cluster := w1\<rparr>)) a = Some fn" "content (cluster (st\<lparr>cluster := w1\<rparr>)) fn = Some (s @ d)"
    by (simp_all add: 2)
  from Cons.IH [OF this] obtain w where
    "append_all A ds f (st\<lparr>cluster := w1\<rparr>) = Inr (IOOk, st\<lparr>cluster := w1\<rparr>\<lparr>cluster := w\<rparr>)" "path_of w a = Some fn"
    "content w = (content (cluster (st\<lparr>cluster := w1\<rparr>)))(fn := Some ((s @ d) @ concat ds))" by blast
  then show ?case
    using 2(2) assms(1,2) 1 rc by (intro exI [of _ w]) (simp add: w_Append_def with_aof_def del: bindR_eq_Inr)
qed

lemma read_all_run:
  assumes "s_aof f = a" and "path_of (cluster st) a = Some fn" and "content (cluster st) fn = Some s"
    and "int (length s) < 2 ^ 63" and "s_offset f = int k" and "k \<le> length s"
  shows "\<exists>f'. read_all A ns f st = (IOOk, take (sum_list ns) (drop k s), f')"
  using assms(1,5,6)
proof (induction ns arbitrary: f k)
  case (Cons n ns)
  obtain rc b where 1: "cache_pread A a n (int k) (cluster st) = (rc, b)" by force
  have "0 \<le> rc" using pread_succeeds [OF assms(2), of "int k" n] 1 by simp
  from pread_bytes [OF 1 assms(2,3) of_nat_0_le_iff this, unfolded nat_int] have
    2: "rc = int (min n (length s - k))" "take (nat rc) b = take n (drop k s)" by blast+
  let ?m = "min n (length s - k)" and ?f = "f\<lparr>s_offset := int (k + min n (length s - k))\<rparr>"
  have le: "k + ?m \<le> length s" using Cons.prems(3) by simp
  then have "int k + rc < 2 ^ 63" using assms(4) 2(1) by linarith
  then have off: "s64 (int k + rc) = int (k + ?m)" using 2(1) by (simp add: s64_id)
  have 3: "seq_Read A n f st = (IOOk, Some (take n (drop k s)), ?f)"
    using \<open>0 \<le> rc\<close> by (simp add: seq_Read_def Cons.prems 1 Let_def 2(2) off)
  from Cons.IH [of ?f "k + ?m"] Cons.prems le obtain f' where
    "read_all A ns ?f st = (IOOk, take (sum_list ns) (drop (k + ?m) s), f')" by auto
  moreover have "take n (drop k s) @ take (sum_list ns) (drop (k + ?m) s) = take (sum_list (n # ns)) (drop k s)"
    by (cases "n \<le> length s - k") (simp_all add: take_add min_def add.commute)
  ultimately show ?case by (simp add: 3)
qed simp

end

section \<open>An in-memory cluster\<close>

text \<open>The instance: the files, newest version first, and the path of every opened object.\<close>

type_synonym mempf = "(string \<times> slice) list \<times> string list"

definition mem_path_of :: "mempf \<Rightarrow> nat \<Rightarrow> string option" where
  "mem_path_of w a = (if 0 < a \<and> a \<le> length (snd w) then Some (snd w ! (a - 1)) else None)"

definition mem_file :: "mempf \<Rightarrow> string \<Rightarrow> slice option" where
  "mem_file w = map_of (fst w)"

definition mem_bytes :: "mempf \<Rightarrow> nat \<Rightarrow> slice option" where
  "mem_bytes w a = (case mem_path_of w a of None \<Rightarrow> None | Some f \<Rightarrow> mem_file w f)"

definition mem_pf :: "mempf pf_api" where
  "mem_pf =
     \<lparr>pf_open_aof = (\<lambda>f fl (fs, hs).
        if map_of fs f = None \<and> \<not> flag_creates fl then (0, (fs, hs))
        else (length hs + 1, (if flag_truncates fl \<or> map_of fs f = None then (f, []) # fs else fs, hs @ [f]))),
      pf_append = (\<lambda>a d w. case mem_path_of w a of None \<Rightarrow> (- 1, w)
        | Some f \<Rightarrow> (int (length d), ((f, (case mem_file w f of None \<Rightarrow> [] | Some s \<Rightarrow> s) @ d) # fst w, snd w))),
      pf_sync = (\<lambda>a w. w), pf_file_length = (\<lambda>a w. case mem_bytes w a of None \<Rightarrow> 0 | Some s \<Rightarrow> of_nat (length s)),
      pf_dec_ref = (\<lambda>a w. w), cache_init = (\<lambda>a w. 0),
      cache_pread = (\<lambda>a n off w. if off < 0 then (- 22, []) else case mem_bytes w a of None \<Rightarrow> (0, [])
        | Some s \<Rightarrow> (int (min n (length s - nat off)), take n (drop (nat off) s))),
      pf_aof_access = (\<lambda>f w. if mem_file w f = None then - 2 else 0),
      pf_ls_aof_children = (\<lambda>t w. (0, filter (prefix (t @ ''/'')) (remdups (map fst (fst w))))),
      pf_delete_aof = (\<lambda>f w. (if mem_file w f = None then - 2 else 0, (filter (\<lambda>e. fst e \<noteq> f) (fst w), snd w))),
      pf_create_tenant = (\<lambda>t w. (0, w)),
      pf_rename_aof = (\<lambda>f g w. case mem_file w f of None \<Rightarrow> (- 2, w)
        | Some s \<Rightarrow> (0, ((g, s) # filter (\<lambda>e. fst e \<noteq> f) (fst w), snd w)))\<rparr>"

interpretation mem_pf: pureflash mem_pf mem_file mem_path_of
proof unfold_locales
  show "pf_open_aof mem_pf f fl w = (a, w') \<Longrightarrow> a \<noteq> 0 \<Longrightarrow> mem_path_of w' a = Some f \<and> mem_file w' f \<noteq> None \<and>
      mem_file w' = (if flag_truncates fl \<or> flag_creates fl \<and> mem_file w f = None then (mem_file w)(f := Some []) else mem_file w)" for f fl w a w'
    by (cases w) (auto simp: mem_pf_def mem_path_of_def mem_file_def split: if_splits)
  show "pf_open_aof mem_pf f fl w = (0, w') \<Longrightarrow> mem_file w' = mem_file w" for f fl w w'
    by (cases w) (auto simp: mem_pf_def split: if_splits)
  show "pf_append mem_pf a d w = (rc, w') \<Longrightarrow> mem_path_of w a = Some f \<Longrightarrow> mem_file w f = Some s \<Longrightarrow>
      mem_path_of w' a = Some f \<and> (\<exists>k \<le> length d. mem_file w' = (mem_file w)(f := Some (s @ take k d)) \<and>
        (rc = int (length d) \<longrightarrow> k = length d))" for a d w rc w' f s
    by (auto simp: mem_pf_def mem_path_of_def mem_file_def split: if_splits intro!: exI [of _ "length d"])
  show "mem_file (pf_dec_ref mem_pf a w) = mem_file w" for a w by (simp add: mem_pf_def)
  show "cache_pread mem_pf a n off w = (rc, b) \<Longrightarrow> mem_path_of w a = Some f \<Longrightarrow> mem_file w f = Some s \<Longrightarrow>
      0 \<le> off \<Longrightarrow> 0 \<le> rc \<Longrightarrow> rc = int (min n (length s - nat off)) \<and> take (nat rc) b = take n (drop (nat off) s)"
    for a n off w rc b f s
    by (auto simp: mem_pf_def mem_bytes_def min_def)
qed

interpretation mem_pf_reliable: pureflash_reliable mem_pf mem_file mem_path_of
  by unfold_locales (auto simp: mem_pf_def mem_bytes_def split: option.splits prod.splits)

section \<open>Properties\<close>

text \<open>
  C20: what is appended to a new file is read back. On a cluster that reports no failure,
  creating a file, appending a sequence of buffers and closing it succeeds; a sequential
  reader opened afterwards delivers, for every sequence of request sizes, exactly the
  appended bytes in order, up to the end of the file; and the counters of readers and
  writers are balanced again.
\<close>

theorem aof_write_read:
  assumes "pureflash_reliable A content path_of" and "content (cluster st) fname = None"
    and "int (length (concat ds)) < 2 ^ 63"
  shows "\<exists>f st1 st2 f' st3 g st4. NewWritableFile A fname st = (IOOk, Some f, st1) \<and>
    append_all A ds f st1 = Inr (IOOk, st2) \<and> w_Close A f st2 = Inr (IOOk, f', st3) \<and>
    NewSequentialFile A fname st3 = Inr (IOOk, Some g, st4) \<and>
    (\<forall>ns. \<exists>g'. read_all A ns g st4 = (IOOk, take (sum_list ns) (concat ds), g')) \<and>
    writer_cnt st3 = writer_cnt st \<and> reader_cnt (delete_PfAofSeqFile A g st4) = reader_cnt st"
proof -
  note R = assms(1) and P = pureflash_reliable.axioms(1) [OF assms(1)]
  obtain a w1 where 1: "pf_open_aof A fname aof_create_rdwr (cluster st) = (a, w1)" "a \<noteq> 0" "path_of w1 a = Some fname"
    "content w1 fname = Some []"
    using assms(2) by (rule_tac pureflash_reliable.open_run [OF R, of fname "cluster st"]) auto
  let ?f = "\<lparr>w_aof = a, w_name = fname\<rparr>" and ?s1 = "add_writer a 1 (st\<lparr>cluster := w1\<rparr>)"
  have n: "NewWritableFile A fname st = (IOOk, Some ?f, ?s1)" using 1(1,2) by (simp add: NewWritableFile_def)
  from pureflash_reliable.append_all_run [OF R, of ?f a ?s1 fname "[]" ds] 1(2-4) obtain w2 where
    2: "append_all A ds ?f ?s1 = Inr (IOOk, ?s1\<lparr>cluster := w2\<rparr>)" "content w2 fname = Some (concat ds)" by auto
  let ?s2 = "?s1\<lparr>cluster := w2\<rparr>" and ?s3 = "dec_ref A a (add_writer a (- 1) (?s1\<lparr>cluster := w2\<rparr>))"
  have c: "w_Close A ?f ?s2 = Inr (IOOk, ?f\<lparr>w_aof := 0\<rparr>, ?s3)" using 1(2) by (simp add: w_Close_def with_aof_def)
  have k: "content (cluster ?s3) fname = Some (concat ds)"
    using 2(2) by (simp add: pureflash.dec_ref_content [OF P])
  obtain b w4 where 4: "pf_open_aof A fname aof_create_rdwr (cluster ?s3) = (b, w4)" "b \<noteq> 0" "path_of w4 b = Some fname"
    "content w4 fname = Some (concat ds)"
    using k by (rule_tac pureflash_reliable.open_run [OF R, of fname "cluster ?s3"]) auto
  let ?g = "\<lparr>s_offset = 0, s_aof = b, s_name = fname\<rparr>" and ?s4 = "add_reader b 1 (?s3\<lparr>cluster := w4\<rparr>)"
  have o: "NewSequentialFile A fname ?s3 = Inr (IOOk, Some ?g, ?s4)"
    using 4(1,2) by (simp add: NewSequentialFile_def Let_def new_PfAofSeqFile_def pureflash_reliable.cache_succeeds [OF R])
  have r: "\<exists>g'. read_all A ns ?g ?s4 = (IOOk, take (sum_list ns) (concat ds), g')" for ns
    using pureflash_reliable.read_all_run [OF R, of ?g b ?s4 fname "concat ds" 0 ns] 4(3,4) assms(3) by auto
  have "writer_cnt ?s3 = writer_cnt st" by (simp add: fun_eq_iff)
  moreover have "reader_cnt (delete_PfAofSeqFile A ?g ?s4) = reader_cnt st"
    by (simp add: delete_PfAofSeqFile_def fun_eq_iff)
  ultimately show ?thesis using n 2(1) c o r by blast
qed

definition sample_aof :: "mempf aof_state" where
  "sample_aof = \<lparr>cluster = ([], []), reader_cnt = (\<lambda>_. 0), writer_cnt = (\<lambda>_. 0)\<rparr>"

theorem aof_write_read_witness:
  "\<exists>f st1 st2 f' st3 g st4 g'. NewWritableFile mem_pf ''/t/f'' sample_aof = (IOOk, Some f, st1) \<and>
     append_all mem_pf [''ab'', ''cd''] f st1 = Inr (IOOk, st2) \<and> w_Close mem_pf f st2 = Inr (IOOk, f', st3) \<and>
     NewSequentialFile mem_pf ''/t/f'' st3 = Inr (IOOk, Some g, st4) \<and>
     read_all mem_pf [3, 3] g st4 = (IOOk, ''abcd'', g')"
proof -
  have "mem_file (cluster sample_aof) ''/t/f'' = None" by (simp add: sample_aof_def mem_file_def)
  from aof_write_read [OF mem_pf_reliable.pureflash_reliable_axioms this, of "[''ab'', ''cd'']"] obtain f st1 st2 f' st3 g st4 where
    "NewWritableFile mem_pf ''/t/f'' sample_aof = (IOOk, Some f, st1)" "append_all mem_pf [''ab'', ''cd''] f st1 = Inr (IOOk, st2)"
    "w_Close mem_pf f st2 = Inr (IOOk, f', st3)" "NewSequentialFile mem_pf ''/t/f'' st3 = Inr (IOOk, Some g, st4)"
    "\<forall>ns. \<exists>g'. read_all mem_pf ns g st4 = (IOOk, take (sum_list ns) (concat [''ab'', ''cd'']), g')" by auto
  moreover from this(5) obtain g' where "read_all mem_pf [3, 3] g st4 = (IOOk, ''abcd'', g')"
    by (drule_tac x = "[3, 3]" in spec) auto
  ultimately show ?thesis by blast
qed

lemma strip_children_run: "strip_children (length p) (map (\<lambda>n. p @ n) names) = Inr names"
  by (induction names) (simp_all add: substr_def)

text \<open>
  C36: \<open>GetChildren\<close> delivers the names below a directory when the directory is given without a
  slash at its end; with the slash, every name loses its first character.
\<close>

theorem get_children_names:
  assumes "dir \<noteq> []" and "last dir \<noteq> CHR ''/''"
    and "pf_ls_aof_children A dir (cluster st) = (0, map (\<lambda>n. dir @ CHR ''/'' # n) names)"
  shows "GetChildren A dir st = Inr (IOOk, names) \<and>
    ([] \<notin> set names \<longrightarrow> GetChildren A (dir @ ''/'') st = Inr (IOOk, map tl names))"
proof (intro conjI impI)
  have "map (\<lambda>n. dir @ CHR ''/'' # n) names = map (\<lambda>n. (dir @ ''/'') @ n) names" by simp
  then have "strip_children (length dir + 1) (map (\<lambda>n. dir @ CHR ''/'' # n) names) = Inr names"
    using strip_children_run [of "dir @ ''/''" names] by simp
  then show "GetChildren A dir st = Inr (IOOk, names)"
    using assms by (simp add: GetChildren_def str_back_def Let_def del: bindR_eq_Inr)
next
  assume n: "[] \<notin> set names"
  then have "strip_children (length dir + 2) (map (\<lambda>n. dir @ CHR ''/'' # n) names) = Inr (map tl names)"
    by (induction names) (auto simp: substr_def Suc_le_eq drop_Suc simp del: bindR_eq_Inr)
  then show "GetChildren A (dir @ ''/'') st = Inr (IOOk, map tl names)"
    using assms by (simp add: GetChildren_def str_back_def Let_def del: bindR_eq_Inr)
qed

theorem get_children_names_witness:
  "GetChildren mem_pf ''t'' (sample_aof\<lparr>cluster := ([(''t/log'', [])], [])\<rparr>) = Inr (IOOk, [''log'']) \<and>
   GetChildren mem_pf ''t/'' (sample_aof\<lparr>cluster := ([(''t/log'', [])], [])\<rparr>) = Inr (IOOk, [''og''])"
  using get_children_names [of "''t''" mem_pf "sample_aof\<lparr>cluster := ([(''t/log'', [])], [])\<rparr>" "[''log'']"]
  by (simp add: mem_pf_def)

end
