(* ===== verification/DbOptions.thy ===== *)
theory DbOptions
  imports Keys
begin

text \<open>
  The tuning of RocksDB (\<open>src/src/vn_env.cpp\<close>): the three option sets and the macro that
  selects one. RocksDB's own tuning functions and the configuration file of PureFlash are
  the parameter \<open>tuning\<close>, of which nothing is assumed. The lemmas list the settings that are
  made after the tuning functions have run, so that they hold whatever those do.
\<close>

section \<open>Options\<close>

text \<open>The fields that the code sets. \<open>Options\<close> inherits \<open>ColumnFamilyOptions\<close>, here its field \<open>cf_opts\<close>.\<close>

datatype CompactionStyle = kCompactionStyleLevel | kCompactionStyleUniversal | kCompactionStyleFIFO | kCompactionStyleNone

datatype Priority = BOTTOM | LOW | HIGH | USER

datatype IndexType = kBinarySearch | kHashSearch | kTwoLevelIndexSearch | kBinarySearchWithFirstKey

record BlockBasedTableOptions =
  block_size :: int
  block_align :: bool
  block_cache :: "int option"
  index_type :: IndexType

record ColumnFamilyOptions =
  compaction_style :: CompactionStyle
  write_buffer_size :: int
  max_write_buffer_number :: int
  min_write_buffer_number_to_merge :: int
  target_file_size_base :: int
  target_file_size_multiplier :: int
  level0_file_num_compaction_trigger :: int
  level0_slowdown_writes_trigger :: int
  level0_stop_writes_trigger :: int
  num_levels :: int
  max_bytes_for_level_base :: int
  max_bytes_for_level_multiplier :: int
  table_factory :: "BlockBasedTableOptions option"
  prefix_extractor :: "(slice \<Rightarrow> slice result) option"

record 'e Options =
  cf_opts :: ColumnFamilyOptions
  env :: 'e
  create_if_missing :: bool
  max_background_compactions :: int
  max_background_jobs :: int

record ('e, 'c) tuning =
  IncreaseParallelism :: "'e Options \<Rightarrow> 'e Options"
  OptimizeLevelStyleCompaction :: "ColumnFamilyOptions \<Rightarrow> ColumnFamilyOptions"
  SetBackgroundThreads :: "int \<Rightarrow> Priority \<Rightarrow> 'e \<Rightarrow> 'e"
  new_table_options :: BlockBasedTableOptions
  conf_open :: "string \<Rightarrow> 'c option"
  conf_get_int :: "'c \<Rightarrow> string \<Rightarrow> string \<Rightarrow> int \<Rightarrow> bool \<Rightarrow> int"
  conf_close :: "'c option \<Rightarrow> unit result"

definition CONF_GET_VAL :: "('e, 'c) tuning \<Rightarrow> 'c option \<Rightarrow> string \<Rightarrow> string \<Rightarrow> int \<Rightarrow> int" where
  "CONF_GET_VAL T fp s k v = (case fp of None \<Rightarrow> v | Some fp \<Rightarrow> conf_get_int T fp s k v False)"

definition vivenas_conf :: string where
  "vivenas_conf = ''/etc/pureflash/vivenas.conf''"

section \<open>The option sets\<close>

text \<open>The base and the second set are compiled but not selected.\<close>

definition setup_db_options0 :: "('e, 'c) tuning \<Rightarrow> 'e Options \<Rightarrow> 'e Options" where
  "setup_db_options0 T options =
     (let options = IncreaseParallelism T options;
          options = options\<lparr>cf_opts := OptimizeLevelStyleCompaction T (cf_opts options)\<rparr>
      in options\<lparr>create_if_missing := True\<rparr>)"

definition setup_data_cf_options0 :: "ColumnFamilyOptions \<Rightarrow> ColumnFamilyOptions" where
  "setup_data_cf_options0 options = options"

definition setup_meta_cf_options0 :: "ColumnFamilyOptions \<Rightarrow> ColumnFamilyOptions" where
  "setup_meta_cf_options0 options = options"

text \<open>\<open>SetBackgroundThreads\<close> has the priority \<open>LOW\<close> by default. The deferred call closes the configuration last.\<close>

definition setup_db_options1 :: "('e, 'c) tuning \<Rightarrow> 'e Options \<Rightarrow> 'e Options result" where
  "setup_db_options1 T options =
     (let fp = conf_open T vivenas_conf;
          options = options\<lparr>env := SetBackgroundThreads T 4 LOW (env options)\<rparr>;
          c = (cf_opts options)\<lparr>compaction_style := kCompactionStyleLevel, write_buffer_size := 67108864,
                max_write_buffer_number := 3, target_file_size_base := 67108864\<rparr>;
          options = options\<lparr>max_background_compactions := 4\<rparr>;
          c = c\<lparr>level0_file_num_compaction_trigger := 8, level0_slowdown_writes_trigger := 17,
                level0_stop_writes_trigger := 24, num_levels := CONF_GET_VAL T fp ''rocksdb'' ''num_levels'' 4,
                max_bytes_for_level_base := 536870912, max_bytes_for_level_multiplier := 10,
                target_file_size_multiplier := 2\<rparr>;
          options = IncreaseParallelism T (options\<lparr>cf_opts := c\<rparr>);
          options = options\<lparr>cf_opts := OptimizeLevelStyleCompaction T (cf_opts options)\<rparr>;
          options = options\<lparr>create_if_missing := True\<rparr>
      in bindR (conf_close T fp) (\<lambda>_. Inr options))"

definition setup_data_cf_options1 :: "('e, 'c) tuning \<Rightarrow> ColumnFamilyOptions \<Rightarrow> ColumnFamilyOptions result" where
  "setup_data_cf_options1 T options =
     (let fp = conf_open T vivenas_conf;
          options = OptimizeLevelStyleCompaction T options;
          options = options\<lparr>write_buffer_size := 512 * 2 ^ 20, max_write_buffer_number := 5,
                min_write_buffer_number_to_merge := 1, target_file_size_base := 512 * 2 ^ 20,
                num_levels := CONF_GET_VAL T fp ''rocksdb'' ''num_levels'' 4\<rparr>;
          table_options = (new_table_options T)\<lparr>block_size := 256 * 2 ^ 10, block_align := True,
                block_cache := Some (1 * 1024 * 1024 * 1024), index_type := kHashSearch\<rparr>;
          options = options\<lparr>table_factory := Some table_options, prefix_extractor := Some Transform,
                max_bytes_for_level_multiplier := 10, target_file_size_multiplier := 2\<rparr>
      in bindR (conf_close T fp) (\<lambda>_. Inr options))"

definition setup_meta_cf_options1 :: "('e, 'c) tuning \<Rightarrow> ColumnFamilyOptions \<Rightarrow> ColumnFamilyOptions" where
  "setup_meta_cf_options1 T options =
     (let options = OptimizeLevelStyleCompaction T options;
          options = options\<lparr>max_write_buffer_number := 5, min_write_buffer_number_to_merge := 1,
                target_file_size_base := 64 * 2 ^ 20\<rparr>;
          table_options = (new_table_options T)\<lparr>block_size := 4 * 2 ^ 20, block_align := True\<rparr>
      in options\<lparr>table_factory := Some table_options\<rparr>)"

definition setup_db_options2 :: "('e, 'c) tuning \<Rightarrow> 'e Options \<Rightarrow> 'e Options" where
  "setup_db_options2 T options =
     (let options = (setup_db_options0 T options)\<lparr>max_background_jobs := 16\<rparr>;
          options = options\<lparr>env := SetBackgroundThreads T 16 LOW (env options)\<rparr>
      in options\<lparr>env := SetBackgroundThreads T 4 HIGH (env options)\<rparr>)"

definition setup_data_cf_options2 :: "ColumnFamilyOptions \<Rightarrow> ColumnFamilyOptions" where
  "setup_data_cf_options2 options = setup_data_cf_options0 options"

definition setup_meta_cf_options2 :: "ColumnFamilyOptions \<Rightarrow> ColumnFamilyOptions" where
  "setup_meta_cf_options2 options = setup_meta_cf_options0 options"

text \<open>\<open>OPTION_SETUP\<close> is 1.\<close>

definition setup_db_options :: "('e, 'c) tuning \<Rightarrow> 'e Options \<Rightarrow> 'e Options result" where
  "setup_db_options T options = setup_db_options1 T options"

definition setup_data_cf_options :: "('e, 'c) tuning \<Rightarrow> ColumnFamilyOptions \<Rightarrow> ColumnFamilyOptions result" where
  "setup_data_cf_options T options = setup_data_cf_options1 T options"

definition setup_meta_cf_options :: "('e, 'c) tuning \<Rightarrow> ColumnFamilyOptions \<Rightarrow> ColumnFamilyOptions" where
  "setup_meta_cf_options T options = setup_meta_cf_options1 T options"

section \<open>The settings that do not depend on the tuning functions\<close>

text \<open>
  The data column family is tuned first, so its own settings remain, with the number of
  levels from the configuration file; the database is tuned last, so only
  \<open>create_if_missing\<close> is certain there.
\<close>

lemma data_cf_settings:
  assumes "setup_data_cf_options T c = Inr c'"
  shows "write_buffer_size c' = 512 * 2 ^ 20" and "max_write_buffer_number c' = 5" and "min_write_buffer_number_to_merge c' = 1"
    and "num_levels c' = CONF_GET_VAL T (conf_open T vivenas_conf) ''rocksdb'' ''num_levels'' 4"
    and "prefix_extractor c' = Some Transform" and "max_bytes_for_level_multiplier c' = 10"
  using assms by (auto simp: setup_data_cf_options_def setup_data_cf_options1_def Let_def)

lemma db_settings:
  assumes "setup_db_options T opts = Inr opts'"
  shows "create_if_missing opts'"
  using assms by (auto simp: setup_db_options_def setup_db_options1_def Let_def)

text \<open>The one option that both sets take from the file, when RocksDB's tuning leaves it alone.\<close>

lemma levels_agree:
  assumes "setup_db_options T opts = Inr opts'" and "setup_data_cf_options T c = Inr c'"
    and "\<And>c. num_levels (OptimizeLevelStyleCompaction T c) = num_levels c"
    and "\<And>opts. num_levels (cf_opts (IncreaseParallelism T opts)) = num_levels (cf_opts opts)"
  shows "num_levels (cf_opts opts') = num_levels c'"
  using assms(1,3,4) data_cf_settings(4) [OF assms(2)] by (auto simp: setup_db_options_def setup_db_options1_def Let_def)

end
