(* ===== verification/TestHelper.thy ===== *)
theory TestHelper
  imports Keys
begin

text \<open>
  The interactive test tool (\<open>src/src/vn_test_helper.cpp\<close>): a loop that reads command lines
  from the standard input and appends to, reads and synchronises one test file. The
  operating system, \<open>getopt_long\<close> and \<open>split_string\<close> of PureFlash are the parameter \<open>posix\<close>.
  The loop need not end, so it is a partial function; the lemmas show when it does.
\<close>

unbundle bit_operations_syntax

section \<open>The system calls\<close>

text \<open>
  The calls act on the state \<open>'w\<close> of the system, which holds \<open>errno\<close>. A file is opened with
  its flags, \<open>pread\<close> delivers the bytes it read, \<open>malloc\<close> says if there is memory.
\<close>

record 'w posix =
  px_open :: "string \<Rightarrow> 32 word \<Rightarrow> 'w \<Rightarrow> int \<times> 'w"
  px_close :: "int \<Rightarrow> 'w \<Rightarrow> 'w"
  px_malloc :: "int \<Rightarrow> 'w \<Rightarrow> bool"
  px_pread :: "int \<Rightarrow> int \<Rightarrow> int \<Rightarrow> 'w \<Rightarrow> int \<times> slice \<times> 'w"
  px_write :: "int \<Rightarrow> slice \<Rightarrow> 'w \<Rightarrow> int \<times> 'w"
  px_pwrite :: "int \<Rightarrow> slice \<Rightarrow> int \<Rightarrow> 'w \<Rightarrow> int \<times> 'w"
  px_fsync :: "int \<Rightarrow> 'w \<Rightarrow> int \<times> 'w"
  px_errno :: "'w \<Rightarrow> int"
  px_set_errno :: "int \<Rightarrow> 'w \<Rightarrow> 'w"
  getopt_long :: "string list \<Rightarrow> char list \<times> nat"
  split_string :: "string \<Rightarrow> char \<Rightarrow> string list"

text \<open>\<open>strtol\<close> in base 10: white space, a sign, digits; the value is saturated with \<open>ERANGE\<close>.\<close>

definition is_digit :: "char \<Rightarrow> bool" where
  "is_digit c \<longleftrightarrow> 48 \<le> (of_char c :: nat) \<and> (of_char c :: nat) \<le> 57"

definition is_space :: "char \<Rightarrow> bool" where
  "is_space c \<longleftrightarrow> (of_char c :: nat) = 32 \<or> 9 \<le> (of_char c :: nat) \<and> (of_char c :: nat) \<le> 13"

definition long_text :: "string \<Rightarrow> int" where
  "long_text s =
     (let s = dropWhile is_space s; neg = (s \<noteq> [] \<and> hd s = CHR ''-'');
          s = (if s \<noteq> [] \<and> hd s \<in> {CHR ''-'', CHR ''+''} then tl s else s);
          v = int (undec (takeWhile is_digit s))
      in if neg then - v else v)"

definition strtol :: "'w posix \<Rightarrow> string \<Rightarrow> 'w \<Rightarrow> int \<times> 'w" where
  "strtol P s w =
     (let v = long_text s in
      if v < - (2 ^ 63) then (- (2 ^ 63), px_set_errno P 34 w)
      else if 2 ^ 63 - 1 < v then (2 ^ 63 - 1, px_set_errno P 34 w)
      else (v, w))"

section \<open>Commands\<close>

text \<open>The numbers are \<open>uint64_t\<close>; \<open>op\<close> selects the case and is not read again.\<close>

record cmd =
  c_length :: int
  c_src_file :: string
  c_src_offset :: int
  c_vol_offset :: int

text \<open>The result \<open>-errno\<close> is computed before the deferred call closes the file.\<close>

definition do_append :: "'w posix \<Rightarrow> int \<Rightarrow> cmd \<Rightarrow> 'w \<Rightarrow> int \<times> 'w" where
  "do_append P test_fd c w =
     (case px_open P (c_src_file c) 0 w of (f, w) \<Rightarrow>
      if f < 0 then (- px_errno P w, w)
      else if \<not> px_malloc P (c_length c) w then (- 12, px_close P f w)
      else case px_pread P f (c_length c) (s64 (c_src_offset c)) w of (r, buf, w) \<Rightarrow>
      if u64 r \<noteq> c_length c then (- px_errno P w, px_close P f w)
      else case px_write P test_fd buf w of (r, w) \<Rightarrow>
      if u64 r \<noteq> c_length c then (- px_errno P w, px_close P f w)
      else (0, px_close P f w))"

definition do_sync :: "'w posix \<Rightarrow> int \<Rightarrow> 'w \<Rightarrow> int \<times> 'w" where
  "do_sync P test_fd w = px_fsync P test_fd w"

definition do_read :: "'w posix \<Rightarrow> int \<Rightarrow> cmd \<Rightarrow> 'w \<Rightarrow> int \<times> 'w" where
  "do_read P test_fd c w =
     (case px_open P (c_src_file c) 0x42 w of (f, w) \<Rightarrow>
      if f < 0 then (- px_errno P w, w)
      else if \<not> px_malloc P (c_length c) w then (- 12, px_close P f w)
      else case px_pread P test_fd (c_length c) (s64 (c_vol_offset c)) w of (r, buf, w) \<Rightarrow>
      if r < 0 then (- px_errno P w, px_close P f w)
      else case px_pwrite P f buf (s64 (c_src_offset c)) w of (r2, w) \<Rightarrow>
      if r2 \<noteq> r then (- px_errno P w, px_close P f w)
      else case px_fsync P f w of (_, w) \<Rightarrow> (0, px_close P f w))"

text \<open>A number of a command line; \<open>errno\<close> must be 0 after it.\<close>

definition number_arg :: "'w posix \<Rightarrow> string \<Rightarrow> 'w \<Rightarrow> (int \<times> 'w) result" where
  "number_arg P s w = (case strtol P s w of (v, w) \<Rightarrow> if px_errno P w = 0 then Inr (u64 v, w) else Inl AssertFailed)"

text \<open>
  One round of the loop on the text of the buffer: it goes on with the value of \<open>rc\<close>, or the
  process ends with an exit code. A string has a zero byte after its last character.
\<close>

datatype next_round = Go int | Exit int

definition run_cmd :: "'w posix \<Rightarrow> int \<Rightarrow> string \<Rightarrow> string list \<Rightarrow> char \<Rightarrow> 'w \<Rightarrow> (next_round \<times> 'w) result" where
  "run_cmd P test_fd buf args op w =
     (if op = CHR ''a'' then
        if length args \<noteq> 4 then Inl AssertFailed
        else bindR (number_arg P (args ! 1) w) (\<lambda>(len, w).
             bindR (number_arg P (args ! 3) w) (\<lambda>(off, w).
             case do_append P test_fd \<lparr>c_length = len, c_src_file = args ! 2, c_src_offset = off, c_vol_offset = 0\<rparr> w of
               (rc, w) \<Rightarrow> Inr (Go rc, w)))
      else if op = CHR ''s'' then
        if length args \<noteq> 1 then Inl AssertFailed
        else case do_sync P test_fd w of (rc, w) \<Rightarrow> Inr (Go rc, w)
      else if op = CHR ''r'' then
        if length args \<noteq> 5 then Inl AssertFailed
        else bindR (number_arg P (args ! 1) w) (\<lambda>(len, w).
             bindR (number_arg P (args ! 2) w) (\<lambda>(vol, w).
             bindR (number_arg P (args ! 4) w) (\<lambda>(off, w).
             case do_read P test_fd \<lparr>c_length = len, c_src_file = args ! 3, c_src_offset = off, c_vol_offset = vol\<rparr> w of
               (rc, w) \<Rightarrow> Inr (Go rc, w))))
      else if op = CHR ''w'' then
        if length args \<le> 1 then Inl AssertFailed
        else case px_write P test_fd (drop 2 buf) w of (r, w) \<Rightarrow> if r \<le> 0 then Inl AssertFailed else Inr (Go 0, w)
      else if op = CHR ''q'' then Inr (Exit 0, w)
      else Inr (Exit 1, w))"

definition helper_round :: "'w posix \<Rightarrow> int \<Rightarrow> string \<Rightarrow> 'w \<Rightarrow> (next_round \<times> 'w) result" where
  "helper_round P test_fd line w =
     (let buf = takeWhile (\<lambda>c. c \<noteq> CHR 0x00) line; args = split_string P buf (CHR '' '') in
      if args = [] then Inr (Go 0, w)
      else if 1 < length (args ! 0) then Inr (Exit 22, w)
      else run_cmd P test_fd buf args (if args ! 0 = [] then CHR 0x00 else hd (args ! 0)) w)"

section \<open>The loop\<close>

text \<open>
  \<open>cin.getline\<close> into a buffer of 1024 bytes, on the characters left in the stream: the
  line, what is left, and whether \<open>eofbit\<close> and \<open>failbit\<close> are set. A line that does not fit
  sets \<open>failbit\<close>; nothing clears it, and later calls deliver an empty line.
\<close>

definition getline :: "bool \<Rightarrow> string \<Rightarrow> string \<times> string \<times> bool \<times> bool" where
  "getline failbit inp =
     (if failbit then ([], inp, False, True)
      else let n = length (takeWhile (\<lambda>c. c \<noteq> CHR 0x0A) inp) in
        if 1023 < n then (take 1023 inp, drop 1023 inp, False, True)
        else if n < length inp then (take n inp, drop (Suc n) inp, False, False)
        else (inp, [], True, inp = []))"

partial_function (option) helper_loop ::
  "'w posix \<Rightarrow> int \<Rightarrow> bool \<Rightarrow> string \<Rightarrow> 'w \<Rightarrow> (int \<times> 'w) result option" where
  "helper_loop X test_fd failbit inp w =
     (case getline failbit inp of (line, inp, eofbit, failbit) \<Rightarrow>
      if eofbit then Some (Inr (0, w))
      else case helper_round X test_fd line w of
        Inl e \<Rightarrow> Some (Inl e)
      | Inr (Exit rc, w) \<Rightarrow> Some (Inr (rc, w))
      | Inr (Go rc, w) \<Rightarrow> if rc = 0 then helper_loop X test_fd failbit inp w else Some (Inr (rc, w)))"

text \<open>The options in the order \<open>getopt_long\<close> delivers them: an exit code, or the flags of the file.\<close>

fun helper_options :: "char list \<Rightarrow> 32 word \<Rightarrow> int + 32 word" where
  "helper_options [] oflags = Inr oflags"
| "helper_options (c # cs) oflags =
     (if c = CHR ''h'' then Inl 0
      else if c = CHR ''a'' then helper_options cs (oflags OR 0x400)
      else if c = CHR ''?'' then Inl (- 1)
      else helper_options cs oflags)"

definition helper_main :: "'w posix \<Rightarrow> string list \<Rightarrow> string \<Rightarrow> 'w \<Rightarrow> (int \<times> 'w) result option" where
  "helper_main P argv inp w =
     (case getopt_long P argv of (opts, optind) \<Rightarrow>
      case helper_options opts 0 of
        Inl rc \<Rightarrow> Some (Inr (rc, w))
      | Inr oflags \<Rightarrow>
          if length argv \<le> optind then Some (Inr (- 1, w))
          else case px_open P (take 4095 (argv ! optind)) (0x42 OR oflags) w of (test_fd, w) \<Rightarrow>
          if test_fd < 0 then Some (Inr (22, w)) else helper_loop P test_fd False inp w)"

section \<open>When the loop ends\<close>

text \<open>Every line of the input fits the buffer.\<close>

fun lines_fit :: "nat \<Rightarrow> string \<Rightarrow> bool" where
  "lines_fit k [] \<longleftrightarrow> True"
| "lines_fit k (c # cs) \<longleftrightarrow> (if c = CHR 0x0A then lines_fit 1023 cs else 0 < k \<and> lines_fit (k - 1) cs)"

lemma lines_fit_line:
  "lines_fit k inp \<Longrightarrow> length (takeWhile (\<lambda>c. c \<noteq> CHR 0x0A) inp) \<le> k \<and>
    lines_fit 1023 (drop (Suc (length (takeWhile (\<lambda>c. c \<noteq> CHR 0x0A) inp))) inp)"
  by (induction k inp rule: lines_fit.induct) (auto split: if_splits)

lemma loop_ends: "lines_fit 1023 inp \<Longrightarrow> \<exists>r. helper_loop P test_fd False inp w = Some r"
proof (induction "length inp" arbitrary: inp w rule: less_induct)
  case less
  let ?n = "length (takeWhile (\<lambda>c. c \<noteq> CHR 0x0A) inp)"
  have n: "\<not> 1023 < ?n" "lines_fit 1023 (drop (Suc ?n) inp)" using lines_fit_line [OF less.prems] by simp_all
  show ?case
  proof (cases "?n < length inp")
    case True
    then have g: "getline False inp = (take ?n inp, drop (Suc ?n) inp, False, False)" using n(1) by (simp add: getline_def Let_def)
    have "length (drop (Suc ?n) inp) < length inp" using True by simp
    from less.hyps [OF this n(2)] show ?thesis
      by (subst helper_loop.simps) (auto simp: g split: sum.splits next_round.splits)
  next
    case False
    then have "getline False inp = (inp, [], True, inp = [])" using n(1) by (simp add: getline_def Let_def)
    then show ?thesis by (subst helper_loop.simps) simp
  qed
qed

text \<open>After a line that does not fit, the loop spins on empty lines.\<close>

lemma loop_spins:
  assumes s: "split_string P [] (CHR '' '') = []"
  shows "helper_loop P test_fd True inp w = None"
proof -
  have False if "helper_loop P test_fd True inp w = Some y" for y
  proof -
    have "\<not> (P = P \<and> True)"
      by (rule helper_loop.raw_induct [where P = "\<lambda>P' fd fb i v r. \<not> (P' = P \<and> fb)", OF _ that])
        (auto simp: getline_def helper_round_def s, blast)
    then show ?thesis by simp
  qed
  then show ?thesis by (cases "helper_loop P test_fd True inp w") auto
qed

text \<open>So when the next line does not fit, the round on its first 1023 characters decides.\<close>

lemma loop_long_line:
  assumes "split_string P [] (CHR '' '') = []" and "1023 < length (takeWhile (\<lambda>c. c \<noteq> CHR 0x0A) inp)"
  shows "helper_loop P test_fd False inp w =
    (case helper_round P test_fd (take 1023 inp) w of
       Inl e \<Rightarrow> Some (Inl e)
     | Inr (Exit rc, w') \<Rightarrow> Some (Inr (rc, w'))
     | Inr (Go rc, w') \<Rightarrow> if rc = 0 then None else Some (Inr (rc, w')))"
proof -
  have g: "getline False inp = (take 1023 inp, drop 1023 inp, False, True)" using assms(2) by (simp add: getline_def Let_def)
  show ?thesis by (subst helper_loop.simps) (auto simp: g loop_spins [OF assms(1)] split: sum.split next_round.split)
qed

lemma main_ends: "lines_fit 1023 inp \<Longrightarrow> \<exists>r. helper_main P argv inp w = Some r"
  using loop_ends [of inp P] by (auto simp: helper_main_def split: prod.split sum.split)

text \<open>
  A source file that is shorter than the requested range is not an error for \<open>pread\<close>, so
  \<open>do_append\<close> returns \<open>-errno\<close>, which is 0: nothing is appended and success is reported.
\<close>

lemma append_short_source:
  assumes "px_open P (c_src_file c) 0 w = (f, w1)" and "0 \<le> f" and "px_malloc P (c_length c) w1"
    and "px_pread P f (c_length c) (s64 (c_src_offset c)) w1 = (r, buf, w2)" and "0 \<le> r" "r < c_length c" "c_length c < 2 ^ 64"
    and "px_errno P w2 = 0"
  shows "do_append P test_fd c w = (0, px_close P f w2)"
proof -
  have "u64 r \<noteq> c_length c" using assms(5-7) by (simp add: u64_def)
  then show ?thesis using assms by (simp add: do_append_def)
qed

section \<open>Properties\<close>

text \<open>The sample system: one file, written at its end, and words separated by spaces.\<close>

fun sample_split :: "string \<Rightarrow> char \<Rightarrow> string list" where
  "sample_split [] d = []"
| "sample_split (c # cs) d =
     (if c = d then sample_split cs d
      else if cs = [] \<or> hd cs = d then [c] # sample_split cs d
      else case sample_split cs d of [] \<Rightarrow> [[c]] | x # xs \<Rightarrow> (c # x) # xs)"

definition sample_posix :: "slice posix" where
  "sample_posix = \<lparr>px_open = (\<lambda>_ _ w. (3, w)), px_close = (\<lambda>_ w. w), px_malloc = (\<lambda>_ _. True),
     px_pread = (\<lambda>_ len off w. let b = take (nat len) (drop (nat off) w) in (int (length b), b, w)),
     px_write = (\<lambda>_ b w. (int (length b), w @ b)), px_pwrite = (\<lambda>_ b _ w. (int (length b), w)),
     px_fsync = (\<lambda>_ w. (0, w)), px_errno = (\<lambda>_. 0), px_set_errno = (\<lambda>_ w. w),
     getopt_long = (\<lambda>_. ([], 1)), split_string = sample_split\<rparr>"

text \<open>
  C38: when the test helper ends. On every system and for every input whose lines have at
  most 1023 characters, the helper comes to an end. When the next line is longer and the
  split of an empty line has no words, its first 1023 characters are taken as a command, and
  that command decides: if it faults, exits or returns an error, for example with
  \<open>EINVAL\<close> for a first word of more than one character, the helper ends that way; if it
  succeeds, the loop never ends, since the failure state of the input is never cleared.
\<close>

theorem helper_ends:
  "(lines_fit 1023 inp \<longrightarrow> (\<exists>r. helper_main P argv inp w = Some r)) \<and>
   (split_string P [] (CHR '' '') = [] \<and> 1023 < length (takeWhile (\<lambda>c. c \<noteq> CHR 0x0A) inp) \<longrightarrow>
    helper_loop P test_fd False inp w =
      (case helper_round P test_fd (take 1023 inp) w of
         Inl e \<Rightarrow> Some (Inl e)
       | Inr (Exit rc, w') \<Rightarrow> Some (Inr (rc, w'))
       | Inr (Go rc, w') \<Rightarrow> if rc = 0 then None else Some (Inr (rc, w'))))"
  using main_ends [of inp P argv w] loop_long_line [of P inp test_fd w] by blast

lemma sample_split_spaces [simp]: "sample_split (replicate n (CHR '' '')) (CHR '' '') = []"
  by (induction n) auto

lemma sample_split_word [simp]: "n \<noteq> 0 \<Longrightarrow> sample_split (replicate n (CHR ''x'')) (CHR '' '') = [replicate n (CHR ''x'')]"
proof (induction n)
  case (Suc n)
  then show ?case by (cases n) auto
qed simp

theorem helper_ends_witness:
  "(\<exists>r. helper_main sample_posix [''vn_test_helper'', ''f''] (''w hello'' @ [CHR 0x0A] @ ''q'' @ [CHR 0x0A]) [] = Some r) \<and>
   helper_loop sample_posix 3 False (replicate 1024 (CHR '' '')) [] = None \<and>
   helper_loop sample_posix 3 False (replicate 1024 (CHR ''x'')) [] = Some (Inr (22, []))"
proof -
  let ?a = "''w hello'' @ [CHR 0x0A] @ ''q'' @ [CHR 0x0A]"
  have a: "lines_fit 1023 ?a" by simp
  have l: "1023 < length (takeWhile (\<lambda>c. c \<noteq> CHR 0x0A) (replicate 1024 c))" if "c \<noteq> CHR 0x0A" for c
    using that by (simp add: takeWhile_replicate)
  have s: "split_string sample_posix [] (CHR '' '') = []" by (simp add: sample_posix_def)
  have "helper_round sample_posix 3 (take 1023 (replicate 1024 (CHR '' ''))) [] = Inr (Go 0, [])"
    "helper_round sample_posix 3 (take 1023 (replicate 1024 (CHR ''x''))) [] = Inr (Exit 22, [])"
    by (simp_all add: sample_posix_def helper_round_def Let_def takeWhile_replicate)
  then show ?thesis
    using a s l [of "CHR '' ''"] l [of "CHR ''x''"] helper_ends [of ?a sample_posix "[''vn_test_helper'', ''f'']" "[]" 3]
      helper_ends [of "replicate 1024 (CHR '' '')" sample_posix "[]" "[]" 3]
      helper_ends [of "replicate 1024 (CHR ''x'')" sample_posix "[]" "[]" 3] by simp
qed

end
