(* ===== verification/Spec2Isabelle.thy ===== *)
theory Spec2Isabelle
  imports System PfAof DbOptions TestHelper
begin

text \<open>
  A verification library for ViveNAS, a network file system whose files are entries of a
  RocksDB database on PureFlash volumes.

  \<^bold>\<open>The program.\<close> A file system is a database with three column families. \<open>meta_cf\<close> holds
  directory entries (\<open><parent>_<name>\<close>, the value is an inode number), inode records (the
  eight bytes of the number, the value is a 256-byte struct), the inode seed and the
  superblock. \<open>data_cf\<close> holds the content of files in extents of 64 KiB, each under
  \<open>(extent_index, inode_no)\<close> and behind a 16-byte head; a write that does not cover an
  extent is a merge operand, which the merge operator combines when the extent is read or
  compacted. \<open>default_cf\<close> stays empty. \<open>vn_mkfs.cpp\<close> formats a volume, \<open>vn_main.cpp\<close> mounts
  it, \<open>vn_file.cpp\<close> holds the operations on names and on open files, \<open>vn_data_merge.cpp\<close> the
  merge operator, \<open>vn_env.cpp\<close> the options and the prefix extractor, and \<open>vn_pfaof.cpp\<close> the
  file system that RocksDB itself runs on.

  \<^bold>\<open>The theories\<close>, with the sources under \<open>src/\<close> that they model:
  \<^item> \<open>Prelude\<close>: faults and results, 64-bit arithmetic, bounded copies, little-endian words.
  \<^item> \<open>Compaction\<close>: what RocksDB does with the pending operands of one key, for any merge
    operator (locale \<open>merge_operator\<close>): compaction in any order does not change a lookup.
  \<^item> \<open>DataMerge\<close>: \<open>src/vn_data_merge.cpp\<close>, \<open>_merge\<close>, \<open>PartialMerge\<close> and \<open>FullMergeV2\<close>, an
    instance of that locale, and the associative \<open>Merge\<close>; when operands touch, partial merges
    are unobservable.
  \<^item> \<open>Keys\<close>: the keys of both column families and \<open>ExtPrefixExtrator\<close> of \<open>src/vn_env.cpp\<close>;
    the kinds of key do not collide.
  \<^item> \<open>Store\<close>: RocksDB's transactions, lookups and iterators as the parameter \<open>ext\<close>, with the
    locales \<open>rocksdb\<close> (any store, calls may fail) and \<open>rocksdb_reliable\<close> (no call fails).
  \<^item> \<open>Inode\<close>: \<open>struct ViveInode\<close>, \<open>struct ViveFile\<close>, their memory image, and the heap of
    reference-counted in-memory inodes.
  \<^item> \<open>Namespace\<close> and \<open>DirOps\<close>: creating, looking up, unlinking and listing
    (\<open>src/vn_file.cpp\<close>); creation is atomic on any store, a listing is complete.
  \<^item> \<open>FileData\<close>, \<open>FileBytes\<close>, \<open>FileVec\<close>: \<open>vn_write\<close>, \<open>vn_read\<close> and their vectored forms
    (\<open>src/vn_file.cpp\<close>); they refine overlaying and reading the bytes of a file.
  \<^item> \<open>OpenFile\<close>: opening, truncating, synchronising and closing (\<open>src/vn_file.cpp\<close>).
  \<^item> \<open>Mount\<close>: format, mount, flush, unmount and the superblock (\<open>src/vn_mkfs.cpp\<close>,
    \<open>src/vn_main.cpp\<close>); the storage and the JSON library are the parameter \<open>sys\<close> with the
    locales \<open>rocksdb_disk\<close> and \<open>rocksdb_disk_reliable\<close>.
  \<^item> \<open>Crash\<close>: which transactions each operation commits, and what a crash may recover: the
    log is flushed by hand (\<open>manual_wal_flush\<close>), so it is one of the states committed since the
    last \<open>FlushWAL\<close>. The locales \<open>rocksdb_crash\<close> and \<open>rocksdb_crash_reliable\<close> state this, and
    are interpreted on a store with a log. Data that \<open>vn_fsync\<close> has synchronised is read back
    after the crash, if the write joined the operands that were pending; operands that do not
    touch are exposed to the gap that \<open>PartialMerge\<close> zeroes (\<open>DataMerge\<close>). This rests on a store
    that recovers its synchronised log; comments in \<open>src/vn_main.cpp\<close> and
    \<open>src/vn_data_merge.cpp\<close> report data that was lost on restart.
  \<^item> \<open>Metadata\<close>: the abstract machine of the stored metadata with its invariant, and what each
    call does to the metadata, the data and the in-memory inodes on any store.
  \<^item> \<open>System\<close>: the calls together, as steps (\<open>fs_step\<close>) on a mounted file system with its
    in-memory inodes, its open files and the references to inodes that the context and the
    caller hold: \<open>vn_create_file\<close>, \<open>vn_lookup_inode_no\<close>, \<open>vn_next_inode\<close>, \<open>vn_dec_inode_ref\<close>,
    \<open>vn_persist_inode\<close> (also of the root inode), \<open>vn_unlink\<close>, \<open>vn_open_file\<close>,
    \<open>vn_open_file_by_inode\<close> (also of an inode that is shared), reads, writes, \<open>vn_fsync\<close>,
    \<open>vn_close_file\<close>, \<open>vn_flush_fs\<close> and a remount. On any store every call refines the machine of
    \<open>Metadata\<close>, and every state that calls, remounts and crashes reach after formatting keeps
    its invariants: names own their inodes, inode records are well formed, reference counters
    are exact and open files never dangle. Files that are not open keep their bytes, and on a
    reliable store every stored name opens.
  \<^item> \<open>PfAof\<close>: the RocksDB file system on PureFlash (\<open>src/vn_pfaof.cpp\<close>), over the parameter
    \<open>pf_api\<close> with the locales \<open>pureflash\<close> and \<open>pureflash_reliable\<close>; files are opened with the
    flags of the source.
  \<^item> \<open>DbOptions\<close>: the option sets of \<open>src/vn_env.cpp\<close>, over the parameter \<open>tuning\<close> for RocksDB's
    own tuning, of which nothing is assumed.
  \<^item> \<open>TestHelper\<close>: the command loop of \<open>src/vn_test_helper.cpp\<close>, over the parameter \<open>posix\<close>;
    it shows for which inputs the loop ends.

  \<^bold>\<open>Conventions.\<close> A byte is a \<^typ>\<open>char\<close>; a buffer, a \<open>std::string\<close> or a \<open>Slice\<close> is a
  \<^typ>\<open>string\<close>. An operation is a function from the state to a result, which is a fault
  (an access out of bounds, a division by zero, a failed assertion, a null or dangling
  pointer, the end of the process) or the value that the code returns with the new state.
  Struct fields are machine words; intermediate \<open>size_t\<close> and \<open>int64_t\<close> values are integers
  with the wrap-around written out (\<open>u64\<close>, \<open>s64\<close>). The guard that rolls a transaction back
  is written out as \<open>rollback\<close>; log messages are not modelled. What a theorem says of \<open>any
  store\<close> has the hypothesis \<open>rocksdb E hist batch\<close>; where it needs calls to succeed the
  hypothesis is \<open>rocksdb_reliable\<close>. Every such locale is interpreted on an in-memory store,
  disk or cluster, on which the witnesses run.

  The bytes of a file (\<open>fbyte\<close>) are its logical content: the base value of each extent overlaid
  with the pending operands in order. A read delivers them when the extents are in order
  (\<open>extents_ok\<close>) and the offset is aligned; when operands do not touch, a compaction may zero the
  gap between them, and an unaligned read is shifted. Both are shown as properties of their
  own.

  \<^bold>\<open>Bounds.\<close> Loops terminate by the measures of their definitions; \<open>list_dir\<close>, the loop of
  a caller that reads a directory, takes as fuel a number of entries, and the length of
  the scan is shown to be enough. The loop of the test helper may run forever and is a
  partial function. File names hold no zero byte and inode numbers stay below
  \<open>2^56\<close> where key spaces have to be disjoint; offsets stay below \<open>2^63\<close>; fewer than
  \<open>2^32 - 1\<close> references to inodes are held at a time.

  \<^bold>\<open>Not modelled.\<close> What RocksDB does with the option values. The text of log messages and
  of the output of the tools. The NFS server that calls the library, RocksDB, PureFlash, the
  JSON library and the operating system are not part of the sources; they are parameters
  where the code calls them. Code that is commented out or under \<open>#if 0\<close>. A crash in the
  middle of a call: a call that has not returned has committed a part of what it commits
  when it returns, in the order that \<open>Crash\<close> lists.
  Concurrency is not modelled: the operations are atomic, as their transactions make their
  effects on the store.
\<close>

end
